theory Spec2Isabelle
  imports Main "HOL-Library.AList" "HOL-Library.Char_ord" "HOL-Library.List_Lexorder"
begin

section \<open>Data model of the submission queue\<close>

text \<open>
  The queue document (\<^verbatim>\<open>submission_queue.json\<close>) is a dictionary from endpoint id to a
  dictionary from submission id to a submission bundle. Dictionaries are association
  lists in insertion order: \<open>map_of\<close> reads a key, \<open>AList.update\<close> assigns one (in place
  when the key exists, appended otherwise), as a Python dictionary does.
  Exceptions are values of type \<open>error\<close>; a function that touches the persisted file
  returns its outcome together with the file's content when it returns or raises.
\<close>

datatype error = KeyError string | ConnectionError | OtherError string

record datetime =
  year :: nat
  month :: nat
  day :: nat
  hour :: nat
  minute :: nat
  second :: nat
  microsecond :: nat

record submission_data =
  wf :: string
  jsonyaml :: string
  attachments :: "string list"

text \<open>The \<^verbatim>\<open>run\<close> dictionary: \<^verbatim>\<open>state\<close> and \<^verbatim>\<open>elapsed_time\<close> are keys that may be missing.\<close>

record run_data =
  run_id :: string
  start_time :: string
  state :: "string option"
  elapsed_time :: "string option"

text \<open>A submission bundle; \<open>wf_type\<close> is the key \<^verbatim>\<open>type\<close>, and \<open>run = None\<close> says that
  the key \<^verbatim>\<open>run\<close> is not in the dictionary.\<close>

record submission =
  status :: string
  data :: submission_data
  wf_id :: string
  wf_type :: string
  sample :: string
  run :: "run_data option"

type_synonym bundles = "(string \<times> submission) list"
type_synonym queue = "(string \<times> bundles) list"

text \<open>An entry of \<^verbatim>\<open>wf_config()\<close>.\<close>

record workflow =
  workflow_url :: string
  workflow_type :: string
  workflow_attachments :: "string list"

text \<open>
  The collaborators that are not part of the module: the two configuration tables, the
  two remote operations of \<^verbatim>\<open>WESClient\<close> (either may raise), \<^verbatim>\<open>datetime.ctime\<close>, and
  \<open>elapsed now start\<close> for \<^verbatim>\<open>convert_timedelta(now - ctime2datetime(start))\<close>.
  During one call of an operation the answer of a remote operation depends on its
  arguments only. The clock readings are arguments of the operations.
\<close>

record 'c env =
  wes_config :: "string \<rightharpoonup> 'c"
  wf_config :: "string \<rightharpoonup> workflow"
  run_workflow :: "'c \<Rightarrow> string \<Rightarrow> string \<Rightarrow> string list \<Rightarrow> error + run_data"
  get_workflow_run_status :: "'c \<Rightarrow> string \<Rightarrow> error + string"
  ctime :: "datetime \<Rightarrow> string"
  elapsed :: "datetime \<Rightarrow> string \<Rightarrow> string"

section \<open>Submission ids\<close>

definition digit :: "nat \<Rightarrow> char" where
  "digit n = char_of (of_char (CHR ''0'') + n mod 10)"

text \<open>\<open>zero_padded w n\<close>: the last \<open>w\<close> decimal digits of \<open>n\<close>, zero padded (a \<^verbatim>\<open>strftime\<close>
  field of width \<open>w\<close>, whose value always fits).\<close>

primrec zero_padded :: "nat \<Rightarrow> nat \<Rightarrow> string" where
  "zero_padded 0 n = []"
| "zero_padded (Suc w) n = zero_padded w (n div 10) @ [digit n]"

text \<open>\<^verbatim>\<open>strftime('%d%m%d%H%M%S%f')\<close>: day, month, day, hour, minute, second, microsecond.\<close>

definition strftime_id :: "datetime \<Rightarrow> string" where
  "strftime_id t =
     zero_padded 2 (day t) @ zero_padded 2 (month t) @ zero_padded 2 (day t) @
     zero_padded 2 (hour t) @ zero_padded 2 (minute t) @ zero_padded 2 (second t) @
     zero_padded 6 (microsecond t)"

text \<open>The order of two clock readings: \<open>before s t\<close> when \<open>s\<close> is strictly before \<open>t\<close>.\<close>

definition stamp :: "datetime \<Rightarrow> nat list" where
  "stamp t = [year t, month t, day t, hour t, minute t, second t, microsecond t]"

definition before :: "datetime \<Rightarrow> datetime \<Rightarrow> bool" where
  "before s t = (stamp s < stamp t)"

section \<open>Queue store operations\<close>

text \<open>\<^verbatim>\<open>d.setdefault(k1, {})[k2] = v\<close> on a dictionary of dictionaries.\<close>

definition setdefault_assign ::
  "'a \<Rightarrow> 'b \<Rightarrow> 'v \<Rightarrow> ('a \<times> ('b \<times> 'v) list) list \<Rightarrow> ('a \<times> ('b \<times> 'v) list) list" where
  "setdefault_assign k1 k2 v d =
     AList.update k1 (AList.update k2 v (case map_of d k1 of None \<Rightarrow> [] | Some m \<Rightarrow> m)) d"

text \<open>\<open>lookup2 q e i\<close> is \<^verbatim>\<open>q[e][i]\<close> when both keys exist.\<close>

definition lookup2 :: "('a \<times> ('b \<times> 'v) list) list \<Rightarrow> 'a \<Rightarrow> 'b \<Rightarrow> 'v option" where
  "lookup2 submissions wes_id submission_id =
     (case map_of submissions wes_id of None \<Rightarrow> None | Some m \<Rightarrow> map_of m submission_id)"

definition new_bundle :: "submission_data \<Rightarrow> string \<Rightarrow> string \<Rightarrow> string \<Rightarrow> submission" where
  "new_bundle submission_data wf_name wf_type' sample' =
     \<lparr>status = ''RECEIVED'', data = submission_data, wf_id = wf_name,
      wf_type = wf_type', sample = sample', run = None\<rparr>"

text \<open>\<^verbatim>\<open>create_submission\<close>; \<open>now\<close> is the reading of \<^verbatim>\<open>datetime.now()\<close>. It cannot raise.\<close>

definition create_submission ::
  "datetime \<Rightarrow> string \<Rightarrow> submission_data \<Rightarrow> string \<Rightarrow> string \<Rightarrow> string \<Rightarrow> queue \<Rightarrow> string \<times> queue" where
  "create_submission now wes_id submission_data wf_type' wf_name sample' submissions =
     (let submission_id = strftime_id now
      in (submission_id,
          setdefault_assign wes_id submission_id
            (new_bundle submission_data wf_name wf_type' sample') submissions))"

definition get_submissions :: "string \<Rightarrow> string \<Rightarrow> queue \<Rightarrow> error + string list" where
  "get_submissions wes_id status' submissions =
     (case map_of submissions wes_id of
        None \<Rightarrow> Inl (KeyError wes_id)
      | Some m \<Rightarrow> Inr (map fst (filter (\<lambda>(i, bundle). status bundle = status') m)))"

definition get_submission_bundle :: "string \<Rightarrow> string \<Rightarrow> queue \<Rightarrow> error + submission" where
  "get_submission_bundle wes_id submission_id submissions =
     (case map_of submissions wes_id of
        None \<Rightarrow> Inl (KeyError wes_id)
      | Some m \<Rightarrow>
          (case map_of m submission_id of
             None \<Rightarrow> Inl (KeyError submission_id)
           | Some bundle \<Rightarrow> Inr bundle))"

text \<open>The two keys \<^verbatim>\<open>update_submission\<close> is called with, and the value assigned.\<close>

datatype param = Run_param run_data | Status_param string

fun assign :: "param \<Rightarrow> submission \<Rightarrow> submission" where
  "assign (Run_param r) bundle = bundle\<lparr>run := Some r\<rparr>"
| "assign (Status_param s) bundle = bundle\<lparr>status := s\<rparr>"

definition update_submission :: "string \<Rightarrow> string \<Rightarrow> param \<Rightarrow> queue \<Rightarrow> (error + unit) \<times> queue" where
  "update_submission wes_id submission_id p submissions =
     (case map_of submissions wes_id of
        None \<Rightarrow> (Inl (KeyError wes_id), submissions)
      | Some m \<Rightarrow>
          (case map_of m submission_id of
             None \<Rightarrow> (Inl (KeyError submission_id), submissions)
           | Some bundle \<Rightarrow>
               (Inr (), AList.update wes_id
                          (AList.update submission_id (assign p bundle) m) submissions)))"

text \<open>\<^verbatim>\<open>update_submission_run\<close> is only ever called with the key \<^verbatim>\<open>elapsed_time\<close>.\<close>

definition update_submission_run :: "string \<Rightarrow> string \<Rightarrow> string \<Rightarrow> queue \<Rightarrow> (error + unit) \<times> queue" where
  "update_submission_run wes_id submission_id etime submissions =
     (case map_of submissions wes_id of
        None \<Rightarrow> (Inl (KeyError wes_id), submissions)
      | Some m \<Rightarrow>
          (case map_of m submission_id of
             None \<Rightarrow> (Inl (KeyError submission_id), submissions)
           | Some bundle \<Rightarrow>
               (case run bundle of
                  None \<Rightarrow> (Inl (KeyError ''run''), submissions)
                | Some r \<Rightarrow>
                    (Inr (), AList.update wes_id
                               (AList.update submission_id
                                  (bundle\<lparr>run := Some (r\<lparr>elapsed_time := Some etime\<rparr>)\<rparr>) m)
                               submissions))))"

section \<open>Submission manager\<close>

text \<open>\<^verbatim>\<open>if not attach: attach = wf['workflow_attachments']\<close>, where \<open>attach = None\<close> is the
  default argument: \<^verbatim>\<open>not attach\<close> holds for \<^verbatim>\<open>None\<close> and for the empty list.\<close>

definition attach_or_default :: "string list option \<Rightarrow> workflow \<Rightarrow> string list" where
  "attach_or_default attach w =
     (case attach of
        None \<Rightarrow> workflow_attachments w
      | Some a \<Rightarrow> if a = [] then workflow_attachments w else a)"

definition queue ::
  "'c env \<Rightarrow> datetime \<Rightarrow> string \<Rightarrow> string \<Rightarrow> string \<Rightarrow> string \<Rightarrow> string list option \<Rightarrow> queue
     \<Rightarrow> (error + string) \<times> queue" where
  "queue env now service wf_name wf_jsonyaml sample' attach submissions =
     (case wf_config env wf_name of
        None \<Rightarrow> (Inl (KeyError wf_name), submissions)
      | Some w \<Rightarrow>
          (let (submission_id, submissions') =
                  create_submission now service
                    \<lparr>wf = workflow_url w, jsonyaml = wf_jsonyaml,
                     attachments = attach_or_default attach w\<rparr>
                    (workflow_type w) wf_name sample' submissions
           in (Inr submission_id, submissions')))"

section \<open>Dispatcher\<close>

text \<open>\<^verbatim>\<open>run_submission\<close>; \<open>now\<close> is the clock reading stored as \<^verbatim>\<open>start_time\<close>. The status
  of the bundle is not read. The remote call comes before the two writes.\<close>

definition run_submission ::
  "'c env \<Rightarrow> datetime \<Rightarrow> string \<Rightarrow> string \<Rightarrow> queue \<Rightarrow> (error + run_data) \<times> queue" where
  "run_submission env now wes_id submission_id submissions =
     (case get_submission_bundle wes_id submission_id submissions of
        Inl e \<Rightarrow> (Inl e, submissions)
      | Inr submission \<Rightarrow>
          (case wes_config env wes_id of
             None \<Rightarrow> (Inl (KeyError wes_id), submissions)
           | Some c \<Rightarrow>
               (case run_workflow env c (wf (data submission)) (jsonyaml (data submission))
                       (attachments (data submission)) of
                  Inl e \<Rightarrow> (Inl e, submissions)
                | Inr r \<Rightarrow>
                    (let run_data = r\<lparr>start_time := ctime env now\<rparr>
                     in case update_submission wes_id submission_id (Run_param run_data)
                               submissions of
                          (Inl e, s1) \<Rightarrow> (Inl e, s1)
                        | (Inr u, s1) \<Rightarrow>
                            (case update_submission wes_id submission_id
                                    (Status_param ''SUBMITTED'') s1 of
                               (Inl e, s2) \<Rightarrow> (Inl e, s2)
                             | (Inr u', s2) \<Rightarrow> (Inr run_data, s2))))))"

text \<open>What \<^verbatim>\<open>run_next_queued\<close> returns: \<^verbatim>\<open>False\<close>, the run data of the submission it
  started, or \<^verbatim>\<open>None\<close> when the \<^verbatim>\<open>for\<close> loop has nothing to iterate over.\<close>

datatype next_result = Returned_False | Returned_None | Returned_run run_data

definition run_next_queued ::
  "'c env \<Rightarrow> datetime \<Rightarrow> string \<Rightarrow> queue \<Rightarrow> (error + next_result) \<times> queue" where
  "run_next_queued env now wf_service submissions =
     (case get_submissions wf_service ''RECEIVED'' submissions of
        Inl e \<Rightarrow> (Inl e, submissions)
      | Inr queued_submissions \<Rightarrow>
          if queued_submissions = [] then (Inr Returned_False, submissions)
          else (case sort queued_submissions of
                  [] \<Rightarrow> (Inr Returned_None, submissions)
                | submssn_id # rest \<Rightarrow>
                    (case run_submission env now wf_service submssn_id submissions of
                       (Inl e, s) \<Rightarrow> (Inl e, s)
                     | (Inr r, s) \<Rightarrow> (Inr (Returned_run r), s))))"

text \<open>\<^verbatim>\<open>no_queue_run\<close>: \<open>now\<close> is read by \<^verbatim>\<open>queue\<close>, \<open>now'\<close> by \<^verbatim>\<open>run_submission\<close>.\<close>

definition no_queue_run ::
  "'c env \<Rightarrow> datetime \<Rightarrow> datetime \<Rightarrow> string \<Rightarrow> string \<Rightarrow> string \<Rightarrow> string \<Rightarrow> string list option
     \<Rightarrow> queue \<Rightarrow> (error + unit) \<times> queue" where
  "no_queue_run env now now' service wf_name wf_jsonyaml sample' attach submissions =
     (case queue env now service wf_name wf_jsonyaml sample' attach submissions of
        (Inl e, s) \<Rightarrow> (Inl e, s)
      | (Inr submission_id, s) \<Rightarrow>
          (case run_submission env now' service submission_id s of
             (Inl e, s') \<Rightarrow> (Inl e, s')
           | (Inr r, s') \<Rightarrow> (Inr (), s')))"

section \<open>Status monitor\<close>

record snapshot =
  snap_wf_id :: string
  snap_run_id :: string
  sample_name :: string
  run_status :: string
  snap_start_time :: string
  snap_elapsed_time :: string

type_synonym status_dict = "(string \<times> (string \<times> snapshot) list) list"

definition active_states :: "string list" where
  "active_states = [''QUEUED'', ''INITIALIZING'', ''RUNNING'']"

definition queued_snapshot :: "submission \<Rightarrow> snapshot" where
  "queued_snapshot bundle =
     \<lparr>snap_wf_id = wf_id bundle, snap_run_id = ''-'', sample_name = sample bundle,
      run_status = ''QUEUED'', snap_start_time = ''-'', snap_elapsed_time = ''-''\<rparr>"

definition unreachable_snapshot :: "submission \<Rightarrow> snapshot" where
  "unreachable_snapshot bundle =
     \<lparr>snap_wf_id = ''ConnectionError'', snap_run_id = ''-'', sample_name = sample bundle,
      run_status = ''-'', snap_start_time = ''-'', snap_elapsed_time = ''-''\<rparr>"

text \<open>The elapsed time a poll writes once the remote state \<open>st\<close> is known.\<close>

definition etime_of :: "'c env \<Rightarrow> datetime \<Rightarrow> run_data \<Rightarrow> string \<Rightarrow> string" where
  "etime_of env now r st =
     (if st \<in> set active_states then elapsed env now (start_time r)
      else (case elapsed_time r of None \<Rightarrow> ''0h:0m:0s'' | Some e \<Rightarrow> e))"

text \<open>
  One iteration of the loop of \<^verbatim>\<open>monitor_service\<close> for the key \<open>key\<close> (the source's loop
  variable \<^verbatim>\<open>run_id\<close>). \<open>m\<close> is \<^verbatim>\<open>submissions[wf_service]\<close> as loaded when the function
  started; \<open>persisted\<close> is the file, which \<^verbatim>\<open>update_submission_run\<close> reads again and
  writes. The assignment to \<^verbatim>\<open>run['state']\<close> changes the loaded copy only, which is
  never saved: it shows in the snapshot and nowhere else. Only \<^verbatim>\<open>ConnectionError\<close> is
  caught. \<open>now key\<close> is the clock reading of this iteration.
\<close>

definition poll_submission ::
  "'c env \<Rightarrow> (string \<Rightarrow> datetime) \<Rightarrow> string \<Rightarrow> bundles \<Rightarrow> string \<Rightarrow> status_dict \<Rightarrow> queue
     \<Rightarrow> (error + status_dict) \<times> queue" where
  "poll_submission env now wf_service m key status_dict persisted =
     (case map_of m key of
        None \<Rightarrow> (Inl (KeyError key), persisted)
      | Some bundle \<Rightarrow>
          (case run bundle of
             None \<Rightarrow>
               (Inr (setdefault_assign wf_service key (queued_snapshot bundle) status_dict),
                persisted)
           | Some r \<Rightarrow>
               (case wes_config env wf_service of
                  None \<Rightarrow> (Inl (KeyError wf_service), persisted)
                | Some c \<Rightarrow>
                    (case get_workflow_run_status env c (run_id r) of
                       Inl e \<Rightarrow>
                         if e = ConnectionError
                         then (Inr (setdefault_assign wf_service key
                                      (unreachable_snapshot bundle) status_dict), persisted)
                         else (Inl e, persisted)
                     | Inr st \<Rightarrow>
                         (let etime = etime_of env (now key) r st
                          in case update_submission_run wf_service key etime persisted of
                               (Inl e, s) \<Rightarrow> (Inl e, s)
                             | (Inr u, s) \<Rightarrow>
                                 (Inr (setdefault_assign wf_service key
                                         \<lparr>snap_wf_id = wf_id bundle, snap_run_id = run_id r,
                                          sample_name = sample bundle, run_status = st,
                                          snap_start_time = start_time r,
                                          snap_elapsed_time = etime\<rparr> status_dict), s))))))"

fun poll_all ::
  "'c env \<Rightarrow> (string \<Rightarrow> datetime) \<Rightarrow> string \<Rightarrow> bundles \<Rightarrow> string list \<Rightarrow> status_dict \<Rightarrow> queue
     \<Rightarrow> (error + status_dict) \<times> queue" where
  "poll_all env now wf_service m [] status_dict persisted = (Inr status_dict, persisted)"
| "poll_all env now wf_service m (key # keys) status_dict persisted =
     (case poll_submission env now wf_service m key status_dict persisted of
        (Inl e, s) \<Rightarrow> (Inl e, s)
      | (Inr status_dict', s) \<Rightarrow> poll_all env now wf_service m keys status_dict' s)"

definition monitor_service ::
  "'c env \<Rightarrow> (string \<Rightarrow> datetime) \<Rightarrow> string \<Rightarrow> queue \<Rightarrow> (error + status_dict) \<times> queue" where
  "monitor_service env now wf_service submissions =
     (case map_of submissions wf_service of
        None \<Rightarrow> (Inl (KeyError wf_service), submissions)
      | Some m \<Rightarrow> poll_all env now wf_service m (map fst m) [] submissions)"

text \<open>The \<^verbatim>\<open>for\<close> loop of \<^verbatim>\<open>monitor\<close> over the endpoints of the queue as loaded.\<close>

fun monitor_services ::
  "'c env \<Rightarrow> (string \<Rightarrow> string \<Rightarrow> datetime) \<Rightarrow> string list \<Rightarrow> queue
     \<Rightarrow> (error + status_dict list) \<times> queue" where
  "monitor_services env now [] persisted = (Inr [], persisted)"
| "monitor_services env now (wf_service # rest) persisted =
     (case monitor_service env (now wf_service) wf_service persisted of
        (Inl e, s) \<Rightarrow> (Inl e, s)
      | (Inr status_dict, s) \<Rightarrow>
          (case monitor_services env now rest s of
             (Inl e, s') \<Rightarrow> (Inl e, s')
           | (Inr statuses, s') \<Rightarrow> (Inr (status_dict # statuses), s')))"

text \<open>
  \<^verbatim>\<open>monitor\<close>: \<^verbatim>\<open>while True\<close> around one pass over the endpoints, the display of the
  table and a sleep. \<open>clock n\<close> gives the clock readings of the \<open>n\<close>-th pass. The value
  \<open>None\<close> says that the call does not return; \<open>Some (Inl e, s)\<close> that it raised \<open>e\<close>
  and \<open>Some (Inr (), s)\<close> that it returned, with the file at \<open>s\<close>.
\<close>

partial_function (option) monitor ::
  "'c env \<Rightarrow> (nat \<Rightarrow> string \<Rightarrow> string \<Rightarrow> datetime) \<Rightarrow> nat \<Rightarrow> queue
     \<Rightarrow> ((error + unit) \<times> queue) option" where
  "monitor env clock n submissions =
     (case monitor_services env (clock n) (map fst submissions) submissions of
        (Inl e, s) \<Rightarrow> Some (Inl e, s)
      | (Inr statuses, s) \<Rightarrow> monitor env clock (Suc n) s)"

section \<open>The earlier monitor\<close>

text \<open>
  \<^verbatim>\<open>monitor(submissions)\<close> of the module's earlier copy
  (\<^verbatim>\<open>synorchestrator/orchestrator.py\<close> at the top of the repository). It polls nothing: the
  remote call is commented out and \<^verbatim>\<open>updated_status\<close> is the constant \<^verbatim>\<open>RUNNING\<close>. It writes
  nothing to the file. After the pass it calls itself on the persisted queue when some row
  of the table is QUEUED, INITIALIZING or RUNNING, and returns otherwise.
\<close>

record earlier_snapshot =
  row_wf_id :: string
  row_run_status :: string
  row_wes_id :: string
  row_start_time :: string
  row_elapsed_time :: string

type_synonym earlier_status_dict = "(string \<times> (string \<times> earlier_snapshot) list) list"

text \<open>One iteration of the inner loop; a bundle without \<^verbatim>\<open>run\<close> is skipped. The elapsed
  time \<^verbatim>\<open>0\<close> of the second branch is written as a string.\<close>

definition earlier_poll ::
  "'c env \<Rightarrow> datetime \<Rightarrow> string \<Rightarrow> bundles \<Rightarrow> string \<Rightarrow> earlier_status_dict
     \<Rightarrow> error + earlier_status_dict" where
  "earlier_poll env current wf_service m key status_dict =
     (case map_of m key of
        None \<Rightarrow> Inl (KeyError key)
      | Some bundle \<Rightarrow>
          (case run bundle of
             None \<Rightarrow> Inr status_dict
           | Some r \<Rightarrow>
               (case wes_config env wf_service of
                  None \<Rightarrow> Inl (KeyError wf_service)
                | Some c \<Rightarrow>
                    (let updated_status = ''RUNNING'';
                         etime = (if updated_status \<in> set active_states
                                  then elapsed env current (start_time r)
                                  else (case elapsed_time r of None \<Rightarrow> ''0'' | Some e \<Rightarrow> e))
                     in Inr (setdefault_assign wf_service key
                               \<lparr>row_wf_id = wf_id bundle, row_run_status = updated_status,
                                row_wes_id = wf_service, row_start_time = start_time r,
                                row_elapsed_time = etime\<rparr> status_dict)))))"

fun earlier_poll_all ::
  "'c env \<Rightarrow> datetime \<Rightarrow> string \<Rightarrow> bundles \<Rightarrow> string list \<Rightarrow> earlier_status_dict
     \<Rightarrow> error + earlier_status_dict" where
  "earlier_poll_all env current wf_service m [] status_dict = Inr status_dict"
| "earlier_poll_all env current wf_service m (key # keys) status_dict =
     (case earlier_poll env current wf_service m key status_dict of
        Inl e \<Rightarrow> Inl e
      | Inr status_dict' \<Rightarrow> earlier_poll_all env current wf_service m keys status_dict')"

fun earlier_statuses ::
  "'c env \<Rightarrow> datetime \<Rightarrow> queue \<Rightarrow> string list \<Rightarrow> error + earlier_status_dict list" where
  "earlier_statuses env current submissions [] = Inr []"
| "earlier_statuses env current submissions (wf_service # rest) =
     (case map_of submissions wf_service of
        None \<Rightarrow> Inl (KeyError wf_service)
      | Some m \<Rightarrow>
          (case earlier_poll_all env current wf_service m (map fst m) [] of
             Inl e \<Rightarrow> Inl e
           | Inr status_dict \<Rightarrow>
               (case earlier_statuses env current submissions rest of
                  Inl e \<Rightarrow> Inl e
                | Inr statuses \<Rightarrow> Inr (status_dict # statuses))))"

text \<open>The rows of the table: one for every key pair of every status dictionary.\<close>

definition table_rows :: "earlier_status_dict list \<Rightarrow> earlier_snapshot list" where
  "table_rows statuses =
     concat (map (\<lambda>status_dict. concat (map (\<lambda>(i, d). map snd d) status_dict)) statuses)"

text \<open>
  \<open>persisted\<close> is the queue file, \<open>submissions\<close> the argument, \<open>clock n\<close> the reading of the clock
  in the \<open>n\<close>-th call. A table without rows has no column \<^verbatim>\<open>run_status\<close>, and indexing it
  raises \<^verbatim>\<open>KeyError\<close>. The interpreter's recursion limit is not modelled.
\<close>

partial_function (option) earlier_monitor ::
  "'c env \<Rightarrow> (nat \<Rightarrow> datetime) \<Rightarrow> queue \<Rightarrow> nat \<Rightarrow> queue \<Rightarrow> (error + unit) option" where
  "earlier_monitor env clock persisted n submissions =
     (case earlier_statuses env (clock n) submissions (map fst submissions) of
        Inl e \<Rightarrow> Some (Inl e)
      | Inr statuses \<Rightarrow>
          if table_rows statuses = [] then Some (Inl (KeyError ''run_status''))
          else if list_ex (\<lambda>row. row_run_status row \<in> set active_states) (table_rows statuses)
          then earlier_monitor env clock persisted (Suc n) persisted
          else Some (Inr ()))"

text \<open>Every row of a status dictionary reports RUNNING.\<close>

definition all_running :: "earlier_status_dict \<Rightarrow> bool" where
  "all_running status_dict =
     list_all (\<lambda>(i, d). list_all (\<lambda>(j, row). row_run_status row = ''RUNNING'') d) status_dict"

section \<open>The run record invariant\<close>

text \<open>The key \<^verbatim>\<open>run\<close> is in a bundle exactly when its status is not RECEIVED.\<close>

definition run_iff_not_received :: "submission \<Rightarrow> bool" where
  "run_iff_not_received bundle = ((run bundle \<noteq> None) = (status bundle \<noteq> ''RECEIVED''))"

definition store_inv :: "queue \<Rightarrow> bool" where
  "store_inv submissions =
     list_all (\<lambda>(wes_id, m). list_all (\<lambda>(i, bundle). run_iff_not_received bundle) m) submissions"

text \<open>The operations on the queue, each with its arguments and the clock readings it
  takes; \<open>perform env op s\<close> is the file after the operation returned or raised.\<close>

datatype operation =
    Create_submission datetime string submission_data string string string
  | Queue datetime string string string string "string list option"
  | No_queue_run datetime datetime string string string string "string list option"
  | Run_submission datetime string string
  | Run_next_queued datetime string
  | Monitor_service "string \<Rightarrow> datetime" string
  | Monitor_pass "string \<Rightarrow> string \<Rightarrow> datetime"

fun perform :: "'c env \<Rightarrow> operation \<Rightarrow> queue \<Rightarrow> queue" where
  "perform env (Create_submission now wes_id d wf_type' wf_name sample') s =
     snd (create_submission now wes_id d wf_type' wf_name sample' s)"
| "perform env (Queue now service wf_name wf_jsonyaml sample' attach) s =
     snd (queue env now service wf_name wf_jsonyaml sample' attach s)"
| "perform env (No_queue_run now now' service wf_name wf_jsonyaml sample' attach) s =
     snd (no_queue_run env now now' service wf_name wf_jsonyaml sample' attach s)"
| "perform env (Run_submission now wes_id submission_id) s =
     snd (run_submission env now wes_id submission_id s)"
| "perform env (Run_next_queued now wf_service) s =
     snd (run_next_queued env now wf_service s)"
| "perform env (Monitor_service now wf_service) s =
     snd (monitor_service env now wf_service s)"
| "perform env (Monitor_pass now) s =
     snd (monitor_services env now (map fst s) s)"

section \<open>Example inputs\<close>

definition t_jan31 :: datetime where
  "t_jan31 = \<lparr>year = 2018, month = 1, day = 31, hour = 12, minute = 0, second = 0,
               microsecond = 0\<rparr>"

definition t_feb01 :: datetime where
  "t_feb01 = \<lparr>year = 2018, month = 2, day = 1, hour = 12, minute = 0, second = 0,
               microsecond = 0\<rparr>"

definition md5_data :: submission_data where
  "md5_data = \<lparr>wf = ''md5sum.cwl'', jsonyaml = ''md5sum.cwl.json'',
                attachments = [''md5sum.input'']\<rparr>"

definition md5_workflow :: workflow where
  "md5_workflow = \<lparr>workflow_url = ''md5sum.cwl'', workflow_type = ''CWL'',
                    workflow_attachments = [''md5sum.input'']\<rparr>"

definition run1 :: run_data where
  "run1 = \<lparr>run_id = ''run1'', start_time = ''Wed Jan 31 12:00:00 2018'', state = None,
            elapsed_time = None\<rparr>"

text \<open>An endpoint \<^verbatim>\<open>local\<close> that starts every run and reports it complete, and the same
  endpoint out of reach.\<close>

definition env_up :: "unit env" where
  "env_up = \<lparr>wes_config = [''local'' \<mapsto> ()], wf_config = [''md5sum'' \<mapsto> md5_workflow],
              run_workflow = (\<lambda>c w j a. Inr run1),
              get_workflow_run_status = (\<lambda>c r. Inr ''COMPLETE''),
              ctime = (\<lambda>t. ''Wed Jan 31 12:00:00 2018''),
              elapsed = (\<lambda>t s. ''0h:0m:1s'')\<rparr>"

definition env_down :: "unit env" where
  "env_down = env_up\<lparr>run_workflow := (\<lambda>c w j a. Inl ConnectionError),
                      get_workflow_run_status := (\<lambda>c r. Inl ConnectionError)\<rparr>"

definition received_bundle :: submission where
  "received_bundle = new_bundle md5_data ''md5sum'' ''CWL'' ''NA''"

definition complete_bundle :: submission where
  "complete_bundle = received_bundle\<lparr>status := ''COMPLETE'',
     run := Some (run1\<lparr>state := Some ''COMPLETE'', elapsed_time := Some ''0h:0m:7s''\<rparr>)\<rparr>"

definition jan31_id :: string where
  "jan31_id = ''310131120000000000''"

definition complete_queue :: queue where
  "complete_queue = [(''local'', [(jan31_id, complete_bundle)])]"

definition received_queue :: queue where
  "received_queue = [(''local'', [(jan31_id, received_bundle)])]"

text \<open>The clock readings handed to the monitor in the examples: always 1 February, noon.\<close>

definition noon :: "string \<Rightarrow> datetime" where
  "noon key = t_feb01"

definition noon_clock :: "nat \<Rightarrow> string \<Rightarrow> string \<Rightarrow> datetime" where
  "noon_clock n wf_service key = t_feb01"

definition submitted_bundle :: submission where
  "submitted_bundle = received_bundle\<lparr>status := ''SUBMITTED'', run := Some run1\<rparr>"

definition submitted_queue :: queue where
  "submitted_queue = [(''local'', [(jan31_id, submitted_bundle)])]"

text \<open>An endpoint that cannot be reached for the run \<^verbatim>\<open>run1\<close> and reports every other run
  as RUNNING, and a queue of three submissions: one started as \<^verbatim>\<open>run1\<close>, one started as
  \<^verbatim>\<open>run2\<close>, one still RECEIVED.\<close>

definition env_flaky :: "unit env" where
  "env_flaky = env_up\<lparr>get_workflow_run_status :=
                 (\<lambda>c r. if r = ''run1'' then Inl ConnectionError else Inr ''RUNNING'')\<rparr>"

definition run2 :: run_data where
  "run2 = \<lparr>run_id = ''run2'', start_time = ''Thu Feb  1 11:59:59 2018'', state = None,
            elapsed_time = None\<rparr>"

definition running_bundle :: submission where
  "running_bundle = received_bundle\<lparr>status := ''SUBMITTED'', run := Some run2\<rparr>"

definition feb01_id :: string where
  "feb01_id = ''010201115959000000''"

definition feb02_id :: string where
  "feb02_id = ''020201120000000000''"

definition mixed_bundles :: bundles where
  "mixed_bundles =
     [(jan31_id, submitted_bundle), (feb01_id, running_bundle), (feb02_id, received_bundle)]"

definition mixed_queue :: queue where
  "mixed_queue = [(''local'', mixed_bundles)]"

section \<open>Lemmas on the store\<close>

lemma strftime_jan31: "strftime_id t_jan31 = ''310131120000000000''"
  by code_simp

lemma strftime_feb01: "strftime_id t_feb01 = ''010201120000000000''"
  by code_simp

lemma lookup2_setdefault_assign:
  "lookup2 (setdefault_assign e i v s) e' i' =
     (if e' = e \<and> i' = i then Some v else lookup2 s e' i')"
  by (auto simp: lookup2_def setdefault_assign_def update_conv' split: option.splits)

section \<open>Submission ids and creation\<close>

text \<open>
  C1 (fails on the code). The claim: of two submissions created one after the other on
  the same endpoint, the later one gets the strictly greater id. The id is the clock
  reading formatted as day, month, day, hour, minute, second, microsecond, which starts
  with the day of the month. A submission created on 31 January at noon gets
  \<^verbatim>\<open>310131120000000000\<close>; the next one, created on 1 February at noon on the same endpoint,
  gets \<^verbatim>\<open>010201120000000000\<close>, which is smaller.
\<close>

theorem C1_later_id_is_smaller:
  "before t_jan31 t_feb01 \<and>
   fst (create_submission t_jan31 ''local'' md5_data ''CWL'' ''md5sum'' ''NA'' [])
     = ''310131120000000000'' \<and>
   fst (create_submission t_feb01 ''local'' md5_data ''CWL'' ''md5sum'' ''NA''
          (snd (create_submission t_jan31 ''local'' md5_data ''CWL'' ''md5sum'' ''NA'' [])))
     = ''010201120000000000'' \<and>
   ''010201120000000000'' < ''310131120000000000''"
proof -
  have "before t_jan31 t_feb01"
    by (simp add: before_def stamp_def t_jan31_def t_feb01_def)
  moreover have "''010201120000000000'' < ''310131120000000000''"
    by simp
  ultimately show ?thesis
    by (simp add: create_submission_def Let_def strftime_jan31 strftime_feb01)
qed

text \<open>
  C2 (as stated, refuted). The claim: when the generated id already names a record of the
  endpoint, creation fails with DuplicateId and the record stays. Here the queue holds a
  COMPLETE submission under the id of 31 January, noon; a creation at that clock reading
  returns the id and the record under it is now the new RECEIVED bundle.
\<close>

theorem C2_existing_record_overwritten:
  "lookup2 complete_queue ''local'' (strftime_id t_jan31) = Some complete_bundle \<and>
   fst (create_submission t_jan31 ''local'' md5_data ''CWL'' ''md5sum'' ''NA'' complete_queue)
     = strftime_id t_jan31 \<and>
   lookup2 (snd (create_submission t_jan31 ''local'' md5_data ''CWL'' ''md5sum'' ''NA''
                   complete_queue)) ''local'' (strftime_id t_jan31) = Some received_bundle \<and>
   received_bundle \<noteq> complete_bundle"
proof -
  have "lookup2 complete_queue ''local'' (strftime_id t_jan31) = Some complete_bundle"
    by (simp add: strftime_jan31 complete_queue_def jan31_id_def lookup2_def)
  moreover have "received_bundle \<noteq> complete_bundle"
    by (simp add: received_bundle_def complete_bundle_def new_bundle_def)
  ultimately show ?thesis
    by (simp add: create_submission_def Let_def lookup2_setdefault_assign received_bundle_def)
qed

text \<open>
  C2 (amended). Creation never fails: it returns the formatted clock reading as the id,
  the record under that id of that endpoint is the new RECEIVED bundle whether or not the
  id was taken, and every other record of the queue is as before.
\<close>

theorem C2_create_assigns:
  "create_submission now e d ty n sa s = (i, s') \<Longrightarrow>
     i = strftime_id now \<and> lookup2 s' e i = Some (new_bundle d n ty sa) \<and>
     (\<forall>e' i'. (e', i') \<noteq> (e, i) \<longrightarrow> lookup2 s' e' i' = lookup2 s e' i')"
  by (auto simp: create_submission_def Let_def lookup2_setdefault_assign)

theorem C2_create_assigns_witness:
  "lookup2 (snd (create_submission t_jan31 ''local'' md5_data ''CWL'' ''md5sum'' ''NA''
                   complete_queue)) ''local''
           (fst (create_submission t_jan31 ''local'' md5_data ''CWL'' ''md5sum'' ''NA''
                   complete_queue))
     = Some (new_bundle md5_data ''md5sum'' ''CWL'' ''NA'') \<and>
   fst (create_submission t_jan31 ''local'' md5_data ''CWL'' ''md5sum'' ''NA'' complete_queue)
     = strftime_id t_jan31"
proof -
  let ?r = "create_submission t_jan31 ''local'' md5_data ''CWL'' ''md5sum'' ''NA'' complete_queue"
  have "?r = (fst ?r, snd ?r)"
    by simp
  from C2_create_assigns [OF this] show ?thesis
    by blast
qed

section \<open>Queueing\<close>

text \<open>
  C10. Queueing with an empty attachments list gives the same id and the same queue as
  queueing with no attachments argument, and the submission it creates carries the
  attachments configured for the workflow (\<^verbatim>\<open>workflow_attachments\<close> of its
  \<^verbatim>\<open>wf_config\<close> entry), not the empty list.
\<close>

theorem C10_empty_attachments_as_default:
  "queue env now service wf_name wf_jsonyaml sample' (Some []) submissions =
   queue env now service wf_name wf_jsonyaml sample' None submissions \<and>
   (wf_config env wf_name = Some w \<longrightarrow>
      fst (queue env now service wf_name wf_jsonyaml sample' (Some []) submissions)
        = Inr (strftime_id now) \<and>
      lookup2 (snd (queue env now service wf_name wf_jsonyaml sample' (Some []) submissions))
          service (strftime_id now)
        = Some \<lparr>status = ''RECEIVED'',
                data = \<lparr>wf = workflow_url w, jsonyaml = wf_jsonyaml,
                        attachments = workflow_attachments w\<rparr>,
                wf_id = wf_name, wf_type = workflow_type w, sample = sample', run = None\<rparr>)"
proof (intro conjI impI)
  show "queue env now service wf_name wf_jsonyaml sample' (Some []) submissions =
        queue env now service wf_name wf_jsonyaml sample' None submissions"
    by (simp add: queue_def attach_or_default_def split: option.split)
next
  assume w: "wf_config env wf_name = Some w"
  have q: "queue env now service wf_name wf_jsonyaml sample' (Some []) submissions =
             (Inr (strftime_id now),
              setdefault_assign service (strftime_id now)
                (new_bundle \<lparr>wf = workflow_url w, jsonyaml = wf_jsonyaml,
                             attachments = workflow_attachments w\<rparr>
                   wf_name (workflow_type w) sample') submissions)"
    using w by (simp add: queue_def create_submission_def Let_def attach_or_default_def)
  show "fst (queue env now service wf_name wf_jsonyaml sample' (Some []) submissions)
          = Inr (strftime_id now)"
    by (simp add: q)
  show "lookup2 (snd (queue env now service wf_name wf_jsonyaml sample' (Some []) submissions))
            service (strftime_id now)
          = Some \<lparr>status = ''RECEIVED'',
                  data = \<lparr>wf = workflow_url w, jsonyaml = wf_jsonyaml,
                          attachments = workflow_attachments w\<rparr>,
                  wf_id = wf_name, wf_type = workflow_type w, sample = sample', run = None\<rparr>"
    by (simp add: q lookup2_setdefault_assign new_bundle_def)
qed

theorem C10_empty_attachments_as_default_witness:
  "queue env_up t_jan31 ''local'' ''md5sum'' ''md5sum.cwl.json'' ''NA'' (Some []) [] =
   queue env_up t_jan31 ''local'' ''md5sum'' ''md5sum.cwl.json'' ''NA'' None [] \<and>
   fst (queue env_up t_jan31 ''local'' ''md5sum'' ''md5sum.cwl.json'' ''NA'' (Some []) [])
     = Inr ''310131120000000000'' \<and>
   lookup2 (snd (queue env_up t_jan31 ''local'' ''md5sum'' ''md5sum.cwl.json'' ''NA'' (Some []) []))
       ''local'' ''310131120000000000''
     = Some \<lparr>status = ''RECEIVED'',
             data = \<lparr>wf = ''md5sum.cwl'', jsonyaml = ''md5sum.cwl.json'',
                     attachments = [''md5sum.input'']\<rparr>,
             wf_id = ''md5sum'', wf_type = ''CWL'', sample = ''NA'', run = None\<rparr>"
proof -
  have w: "wf_config env_up ''md5sum'' = Some md5_workflow"
    by (simp add: env_up_def)
  from C10_empty_attachments_as_default
         [of env_up t_jan31 "''local''" "''md5sum''" "''md5sum.cwl.json''" "''NA''" "[]"
             md5_workflow] w
  show ?thesis
    by (auto simp: strftime_jan31 md5_workflow_def)
qed

section \<open>Dispatching one submission\<close>

lemma setdefault_assign_twice:
  "setdefault_assign e i v' (setdefault_assign e i v s) = setdefault_assign e i v' s"
  by (simp add: setdefault_assign_def update_conv')

lemma get_submission_bundle_lookup2:
  "lookup2 s e i = Some b \<Longrightarrow> get_submission_bundle e i s = Inr b"
  by (auto simp: lookup2_def get_submission_bundle_def split: option.splits)

lemma update_submission_found:
  "lookup2 s e i = Some b \<Longrightarrow>
     update_submission e i p s = (Inr (), setdefault_assign e i (assign p b) s)"
  by (auto simp: lookup2_def update_submission_def setdefault_assign_def split: option.splits)

lemma update_submission_run_found:
  "lookup2 s e i = Some b \<Longrightarrow> run b = Some r \<Longrightarrow>
     update_submission_run e i t s =
       (Inr (), setdefault_assign e i (b\<lparr>run := Some (r\<lparr>elapsed_time := Some t\<rparr>)\<rparr>) s)"
  by (auto simp: lookup2_def update_submission_run_def setdefault_assign_def split: option.splits)

text \<open>When the remote start returns, both writes happen, whatever the bundle's status.\<close>

lemma run_submission_started:
  assumes "lookup2 s e i = Some b" and "wes_config env e = Some c"
    and "run_workflow env c (wf (data b)) (jsonyaml (data b)) (attachments (data b)) = Inr r"
  shows "run_submission env now e i s =
           (Inr (r\<lparr>start_time := ctime env now\<rparr>),
            setdefault_assign e i
              (b\<lparr>run := Some (r\<lparr>start_time := ctime env now\<rparr>), status := ''SUBMITTED''\<rparr>) s)"
  using assms
  by (simp add: run_submission_def get_submission_bundle_lookup2 Let_def
        update_submission_found lookup2_setdefault_assign setdefault_assign_twice)

text \<open>When the remote start raises, nothing was written yet.\<close>

lemma run_submission_start_failed:
  assumes "lookup2 s e i = Some b" and "wes_config env e = Some c"
    and "run_workflow env c (wf (data b)) (jsonyaml (data b)) (attachments (data b)) = Inl err"
  shows "run_submission env now e i s = (Inl err, s)"
  using assms by (simp add: run_submission_def get_submission_bundle_lookup2)

lemma lookup2_complete_queue: "lookup2 complete_queue ''local'' jan31_id = Some complete_bundle"
  by (simp add: lookup2_def complete_queue_def)

lemma lookup2_received_queue: "lookup2 received_queue ''local'' jan31_id = Some received_bundle"
  by (simp add: lookup2_def received_queue_def)

lemma wes_config_env_up: "wes_config env_up ''local'' = Some ()"
  by (simp add: env_up_def)

lemma wes_config_env_down: "wes_config env_down ''local'' = Some ()"
  by (simp add: env_down_def env_up_def)

lemma run_workflow_env_up: "run_workflow env_up c w j a = Inr run1"
  by (simp add: env_up_def)

lemma run_workflow_env_down: "run_workflow env_down c w j a = Inl ConnectionError"
  by (simp add: env_down_def)

text \<open>
  C3 (as stated, refuted). The claim: running a submission whose status is not RECEIVED
  fails with InvalidStateTransition, the remote start is not invoked and the store is
  not modified. Here the submission is COMPLETE; the call returns the run data the remote
  start produced, and the stored status is now SUBMITTED.
\<close>

theorem C3_complete_submission_is_rerun:
  "lookup2 complete_queue ''local'' jan31_id = Some complete_bundle \<and>
   status complete_bundle = ''COMPLETE'' \<and>
   fst (run_submission env_up t_feb01 ''local'' jan31_id complete_queue) = Inr run1 \<and>
   map_option status
     (lookup2 (snd (run_submission env_up t_feb01 ''local'' jan31_id complete_queue))
        ''local'' jan31_id) = Some ''SUBMITTED'' \<and>
   snd (run_submission env_up t_feb01 ''local'' jan31_id complete_queue) \<noteq> complete_queue"
proof -
  have r: "run_submission env_up t_feb01 ''local'' jan31_id complete_queue =
      (Inr (run1\<lparr>start_time := ctime env_up t_feb01\<rparr>),
       setdefault_assign ''local'' jan31_id
         (complete_bundle\<lparr>run := Some (run1\<lparr>start_time := ctime env_up t_feb01\<rparr>),
                           status := ''SUBMITTED''\<rparr>) complete_queue)"
    by (rule run_submission_started
          [OF lookup2_complete_queue wes_config_env_up run_workflow_env_up])
  have c: "ctime env_up t_feb01 = start_time run1"
    by (simp add: env_up_def run1_def)
  have s: "status complete_bundle = ''COMPLETE''"
    by (simp add: complete_bundle_def)
  have n: "setdefault_assign ''local'' jan31_id
             (complete_bundle\<lparr>run := Some run1, status := ''SUBMITTED''\<rparr>) complete_queue
           \<noteq> complete_queue"
    by (simp add: setdefault_assign_def complete_queue_def complete_bundle_def
          received_bundle_def new_bundle_def run1_def)
  show ?thesis
    using n by (simp add: r c s lookup2_complete_queue lookup2_setdefault_assign)
qed

text \<open>
  C3 (amended). Running a submission does not look at its status. For a submission with
  any status, when the endpoint is configured and the remote start returns run data, the
  call returns that run data with the start time set, and the stored bundle has that run
  record and the status SUBMITTED.
\<close>

theorem C3_run_submission_any_status:
  "lookup2 s e i = Some b \<Longrightarrow> wes_config env e = Some c \<Longrightarrow>
   run_workflow env c (wf (data b)) (jsonyaml (data b)) (attachments (data b)) = Inr r \<Longrightarrow>
     fst (run_submission env now e i s) = Inr (r\<lparr>start_time := ctime env now\<rparr>) \<and>
     lookup2 (snd (run_submission env now e i s)) e i =
       Some (b\<lparr>run := Some (r\<lparr>start_time := ctime env now\<rparr>), status := ''SUBMITTED''\<rparr>)"
  by (simp add: run_submission_started lookup2_setdefault_assign)

theorem C3_run_submission_any_status_witness:
  "fst (run_submission env_up t_feb01 ''local'' jan31_id complete_queue)
     = Inr (run1\<lparr>start_time := ctime env_up t_feb01\<rparr>) \<and>
   lookup2 (snd (run_submission env_up t_feb01 ''local'' jan31_id complete_queue))
       ''local'' jan31_id
     = Some (complete_bundle\<lparr>run := Some (run1\<lparr>start_time := ctime env_up t_feb01\<rparr>),
                             status := ''SUBMITTED''\<rparr>)"
  using C3_run_submission_any_status
          [OF lookup2_complete_queue wes_config_env_up run_workflow_env_up]
  by simp

text \<open>
  C8. When the remote start raises, \<^verbatim>\<open>run_submission\<close> raises the same error and the
  store is exactly as before: no run record, the status as it was. For \<^verbatim>\<open>no_queue_run\<close>
  the error comes out the same way and the store is the one \<^verbatim>\<open>queue\<close> left, in which the
  new submission is RECEIVED and has no run record.
\<close>

theorem C8_start_failure_leaves_store:
  "(lookup2 s e i = Some b \<and> wes_config env e = Some c \<and>
    run_workflow env c (wf (data b)) (jsonyaml (data b)) (attachments (data b)) = Inl err
      \<longrightarrow> run_submission env now e i s = (Inl err, s)) \<and>
   (wf_config env n = Some w \<and> wes_config env e = Some c \<and>
    run_workflow env c (workflow_url w) j (attach_or_default attach w) = Inl err
      \<longrightarrow> no_queue_run env now now' e n j sa attach s
            = (Inl err, snd (queue env now e n j sa attach s)) \<and>
          lookup2 (snd (no_queue_run env now now' e n j sa attach s)) e (strftime_id now)
            = Some \<lparr>status = ''RECEIVED'',
                    data = \<lparr>wf = workflow_url w, jsonyaml = j,
                            attachments = attach_or_default attach w\<rparr>,
                    wf_id = n, wf_type = workflow_type w, sample = sa, run = None\<rparr>)"
proof (intro conjI impI)
  assume "lookup2 s e i = Some b \<and> wes_config env e = Some c \<and>
    run_workflow env c (wf (data b)) (jsonyaml (data b)) (attachments (data b)) = Inl err"
  then show "run_submission env now e i s = (Inl err, s)"
    by (simp add: run_submission_start_failed)
next
  assume a: "wf_config env n = Some w \<and> wes_config env e = Some c \<and>
    run_workflow env c (workflow_url w) j (attach_or_default attach w) = Inl err"
  let ?b = "new_bundle \<lparr>wf = workflow_url w, jsonyaml = j,
                         attachments = attach_or_default attach w\<rparr> n (workflow_type w) sa"
  let ?s = "setdefault_assign e (strftime_id now) ?b s"
  have q: "queue env now e n j sa attach s = (Inr (strftime_id now), ?s)"
    using a by (simp add: queue_def create_submission_def Let_def)
  have l: "lookup2 ?s e (strftime_id now) = Some ?b"
    by (simp add: lookup2_setdefault_assign)
  have r: "run_submission env now' e (strftime_id now) ?s = (Inl err, ?s)"
    by (rule run_submission_start_failed [OF l, of env c]) (simp_all add: a new_bundle_def)
  show n: "no_queue_run env now now' e n j sa attach s
             = (Inl err, snd (queue env now e n j sa attach s))"
    by (simp add: no_queue_run_def q r)
  show "lookup2 (snd (no_queue_run env now now' e n j sa attach s)) e (strftime_id now)
          = Some \<lparr>status = ''RECEIVED'',
                  data = \<lparr>wf = workflow_url w, jsonyaml = j,
                          attachments = attach_or_default attach w\<rparr>,
                  wf_id = n, wf_type = workflow_type w, sample = sa, run = None\<rparr>"
    using l by (simp add: n q new_bundle_def)
qed

theorem C8_start_failure_leaves_store_witness:
  "run_submission env_down t_feb01 ''local'' jan31_id received_queue
     = (Inl ConnectionError, received_queue) \<and>
   no_queue_run env_down t_feb01 t_feb01 ''local'' ''md5sum'' ''md5sum.cwl.json'' ''NA'' None
       received_queue
     = (Inl ConnectionError,
        snd (queue env_down t_feb01 ''local'' ''md5sum'' ''md5sum.cwl.json'' ''NA'' None
               received_queue)) \<and>
   lookup2 (snd (no_queue_run env_down t_feb01 t_feb01 ''local'' ''md5sum''
                   ''md5sum.cwl.json'' ''NA'' None received_queue))
       ''local'' (strftime_id t_feb01)
     = Some \<lparr>status = ''RECEIVED'',
             data = \<lparr>wf = workflow_url md5_workflow, jsonyaml = ''md5sum.cwl.json'',
                     attachments = attach_or_default None md5_workflow\<rparr>,
             wf_id = ''md5sum'', wf_type = workflow_type md5_workflow, sample = ''NA'',
             run = None\<rparr>"
proof -
  have h1: "lookup2 received_queue ''local'' jan31_id = Some received_bundle \<and>
            wes_config env_down ''local'' = Some () \<and>
            run_workflow env_down () (wf (data received_bundle))
              (jsonyaml (data received_bundle)) (attachments (data received_bundle))
              = Inl ConnectionError"
    by (simp add: lookup2_received_queue wes_config_env_down run_workflow_env_down)
  have h2: "wf_config env_down ''md5sum'' = Some md5_workflow \<and>
            wes_config env_down ''local'' = Some () \<and>
            run_workflow env_down () (workflow_url md5_workflow) ''md5sum.cwl.json''
              (attach_or_default None md5_workflow) = Inl ConnectionError"
    by (simp add: wes_config_env_down run_workflow_env_down) (simp add: env_down_def env_up_def)
  show ?thesis
    using C8_start_failure_leaves_store
            [where s = received_queue and e = "''local''" and i = jan31_id
               and b = received_bundle and env = env_down and c = "()"
               and err = ConnectionError and now = t_feb01 and n = "''md5sum''"
               and w = md5_workflow and j = "''md5sum.cwl.json''" and attach = None
               and now' = t_feb01 and sa = "''NA''"] h1 h2
    by blast
qed

section \<open>Dispatching the next queued submission\<close>

lemma sort_head_least:
  "sort (q :: string list) = i # rest \<Longrightarrow> i \<in> set q \<and> (\<forall>j \<in> set q. i \<le> j)"
proof -
  assume a: "sort q = i # rest"
  have "set (sort q) = set q" by simp
  moreover have "sorted (sort q)" by simp
  ultimately show ?thesis using a by (metis list.set_intros(1) set_ConsD sorted_simps(2) order_refl)
qed

text \<open>With an entry for the endpoint and no RECEIVED bundle in it: \<^verbatim>\<open>False\<close>, store unchanged.\<close>

lemma run_next_queued_nothing:
  assumes "map_of s e = Some m" and "\<forall>(i, b) \<in> set m. status b \<noteq> ''RECEIVED''"
  shows "run_next_queued env now e s = (Inr Returned_False, s)"
proof -
  have "filter (\<lambda>(i, bundle). status bundle = ''RECEIVED'') m = []"
    using assms(2) by (auto simp: filter_empty_conv)
  then show ?thesis
    using assms(1) by (simp add: run_next_queued_def get_submissions_def)
qed

text \<open>With RECEIVED bundles: the call is \<^verbatim>\<open>run_submission\<close> on the least of their ids.\<close>

lemma run_next_queued_smallest:
  assumes "get_submissions e ''RECEIVED'' s = Inr q" and "q \<noteq> []"
  shows "\<exists>i. i \<in> set q \<and> (\<forall>j \<in> set q. i \<le> j) \<and>
           run_next_queued env now e s =
             (case run_submission env now e i s of
                (Inl err, s') \<Rightarrow> (Inl err, s')
              | (Inr r, s') \<Rightarrow> (Inr (Returned_run r), s'))"
proof -
  from assms(2) have "sort q \<noteq> []"
    by (metis set_sort set_empty)
  then obtain i rest where h: "sort q = i # rest"
    by (cases "sort q") auto
  have "run_next_queued env now e s =
             (case run_submission env now e i s of
                (Inl err, s') \<Rightarrow> (Inl err, s')
              | (Inr r, s') \<Rightarrow> (Inr (Returned_run r), s'))"
    using assms h by (simp add: run_next_queued_def)
  with sort_head_least [OF h] show ?thesis by blast
qed

lemma set_update_distinct:
  "distinct (map fst m) \<Longrightarrow> (i, b) \<in> set m \<Longrightarrow>
     set (AList.update i b' m) = insert (i, b') (set m - {(i, b)})"
proof (induction m)
  case Nil
  then show ?case by simp
next
  case (Cons p m)
  show ?case
  proof (cases "fst p = i")
    case True
    with Cons.prems have "p = (i, b)"
      by (cases p) (auto simp: image_iff)
    moreover from Cons.prems True have "(i, b) \<notin> set m"
      by (auto simp: image_iff)
    ultimately show ?thesis by auto
  next
    case False
    with Cons show ?thesis by auto
  qed
qed

lemma map_of_setdefault_assign:
  "map_of s e = Some m \<Longrightarrow> map_of (setdefault_assign e i v s) e = Some (AList.update i v m)"
  by (simp add: setdefault_assign_def update_conv')

text \<open>With exactly one RECEIVED bundle, the first call starts it and the second returns
  \<^verbatim>\<open>False\<close>.\<close>

lemma run_next_queued_twice:
  assumes m: "map_of s e = Some m" and d: "distinct (map fst m)"
    and one: "filter (\<lambda>(i, bundle). status bundle = ''RECEIVED'') m = [(i, b)]"
    and c: "wes_config env e = Some c"
    and r: "run_workflow env c (wf (data b)) (jsonyaml (data b)) (attachments (data b)) = Inr r"
  shows "\<exists>s'. run_next_queued env now e s = (Inr (Returned_run (r\<lparr>start_time := ctime env now\<rparr>)), s') \<and>
              run_next_queued env now' e s' = (Inr Returned_False, s')"
proof -
  let ?P = "\<lambda>(i, bundle). status bundle = ''RECEIVED''"
  let ?b = "b\<lparr>run := Some (r\<lparr>start_time := ctime env now\<rparr>), status := ''SUBMITTED''\<rparr>"
  let ?s = "setdefault_assign e i ?b s"
  have "(i, b) \<in> set (filter ?P m)"
    by (simp add: one)
  then have mem: "(i, b) \<in> set m"
    by simp
  with d have "map_of m i = Some b"
    by simp
  with m have l: "lookup2 s e i = Some b"
    by (simp add: lookup2_def)
  have g: "get_submissions e ''RECEIVED'' s = Inr [i]"
    using m one by (simp add: get_submissions_def)
  have first: "run_next_queued env now e s = (Inr (Returned_run (r\<lparr>start_time := ctime env now\<rparr>)), ?s)"
    by (simp add: run_next_queued_def g run_submission_started [OF l c r])
  have others: "\<forall>x \<in> set m - {(i, b)}. \<not> ?P x"
  proof
    fix x assume x: "x \<in> set m - {(i, b)}"
    have "set (filter ?P m) = {(i, b)}"
      by (simp add: one)
    then have "?P x \<Longrightarrow> x \<in> {(i, b)}"
      using x by (metis (no_types, lifting) DiffD1 mem_Collect_eq set_filter)
    with x show "\<not> ?P x"
      by blast
  qed
  have "\<forall>(j, b') \<in> set (AList.update i ?b m). status b' \<noteq> ''RECEIVED''"
    using others by (auto simp: set_update_distinct [OF d mem])
  then have "run_next_queued env now' e ?s = (Inr Returned_False, ?s)"
    by (rule run_next_queued_nothing [OF map_of_setdefault_assign [OF m]])
  with first show ?thesis by blast
qed

text \<open>
  C7 (fails on the code). The claim: for every endpoint, when no RECEIVED submission exists
  the call returns a "nothing queued" signal that is not an error, and the store is
  unchanged. The lemmas above give that, and the dispatch of the smallest RECEIVED id,
  for an endpoint that has an entry in the queue document. For an endpoint without an
  entry (here the empty document and the configured endpoint \<^verbatim>\<open>local\<close>) nothing is queued
  either, and the call raises \<^verbatim>\<open>KeyError\<close>: \<^verbatim>\<open>get_submissions\<close> indexes the document with
  the endpoint id, where \<^verbatim>\<open>create_submission\<close> uses \<^verbatim>\<open>setdefault\<close>.
\<close>

theorem C7_endpoint_without_entry_raises:
  "wes_config env_up ''local'' = Some () \<and>
   run_next_queued env_up t_jan31 ''local'' [] = (Inl (KeyError ''local''), [])"
  by (simp add: run_next_queued_def get_submissions_def env_up_def)

section \<open>Polling one endpoint\<close>

lemma update_submission_run_cases:
  "update_submission_run e i t s = (res, s') \<Longrightarrow>
     (\<exists>err. res = Inl err \<and> s' = s) \<or>
     (\<exists>b r. lookup2 s e i = Some b \<and> run b = Some r \<and> res = Inr () \<and>
        s' = setdefault_assign e i (b\<lparr>run := Some (r\<lparr>elapsed_time := Some t\<rparr>)\<rparr>) s)"
  by (auto simp: update_submission_run_def lookup2_def setdefault_assign_def split: option.splits)

text \<open>One iteration leaves the file as it is, or assigns \<^verbatim>\<open>elapsed_time\<close> in the run record
  of the polled bundle.\<close>

lemma poll_submission_cases:
  assumes "poll_submission env now svc m k sd st = (res, st')"
  shows "st' = st \<or>
     (\<exists>b r t sd'. lookup2 st svc k = Some b \<and> run b = Some r \<and> res = Inr sd' \<and>
        st' = setdefault_assign svc k (b\<lparr>run := Some (r\<lparr>elapsed_time := Some t\<rparr>)\<rparr>) st)"
  using assms
  by (auto simp: poll_submission_def Let_def
      split: option.splits sum.splits if_splits prod.splits
      dest!: update_submission_run_cases)

lemma poll_submission_raised:
  assumes "poll_submission env now svc m k sd st = (Inl err, st')"
  shows "st' = st"
  using poll_submission_cases [OF assms] by auto

lemma poll_submission_frame:
  assumes "(e', i') \<noteq> (svc, k)"
  shows "lookup2 (snd (poll_submission env now svc m k sd st)) e' i' = lookup2 st e' i'"
proof -
  obtain res st' where p: "poll_submission env now svc m k sd st = (res, st')"
    by (cases "poll_submission env now svc m k sd st")
  from poll_submission_cases [OF p] assms show ?thesis
    by (auto simp: p lookup2_setdefault_assign)
qed

lemma poll_submission_unreachable:
  assumes "map_of m k = Some b" and "run b = Some r" and "wes_config env svc = Some c"
    and "get_workflow_run_status env c (run_id r) = Inl ConnectionError"
  shows "poll_submission env now svc m k sd st =
           (Inr (setdefault_assign svc k (unreachable_snapshot b) sd), st)"
  using assms by (simp add: poll_submission_def)

lemma poll_submission_polled:
  assumes "map_of m k = Some b" and "run b = Some r" and "wes_config env svc = Some c"
    and "get_workflow_run_status env c (run_id r) = Inr stt"
    and "lookup2 st svc k = Some b'" and "run b' = Some r'"
  shows "poll_submission env now svc m k sd st =
           (Inr (setdefault_assign svc k
                   \<lparr>snap_wf_id = wf_id b, snap_run_id = run_id r, sample_name = sample b,
                    run_status = stt, snap_start_time = start_time r,
                    snap_elapsed_time = etime_of env (now k) r stt\<rparr> sd),
            setdefault_assign svc k
              (b'\<lparr>run := Some (r'\<lparr>elapsed_time := Some (etime_of env (now k) r stt)\<rparr>)\<rparr>) st)"
  using assms by (simp add: poll_submission_def Let_def update_submission_run_found)

lemma poll_submission_queued:
  assumes "map_of m k = Some b" and "run b = None"
  shows "poll_submission env now svc m k sd st =
           (Inr (setdefault_assign svc k (queued_snapshot b) sd), st)"
  using assms by (simp add: poll_submission_def)

lemma poll_submission_status_dict:
  assumes "poll_submission env now svc m k sd st = (Inr sd', st')"
  shows "\<exists>v. sd' = setdefault_assign svc k v sd"
  using assms
  by (auto simp: poll_submission_def Let_def
      split: option.splits sum.splits if_splits prod.splits)


text \<open>A bundle whose status request fails with \<^verbatim>\<open>ConnectionError\<close> is the same in the file
  after the loop, however the loop ends.\<close>

lemma poll_all_frame:
  assumes "map_of m sid = Some b" and "run b = Some r" and "wes_config env svc = Some c"
    and "get_workflow_run_status env c (run_id r) = Inl ConnectionError"
  shows "lookup2 (snd (poll_all env now svc m ks sd st)) svc sid = lookup2 st svc sid"
proof (induction ks arbitrary: sd st)
  case Nil
  show ?case by simp
next
  case (Cons k ks)
  obtain res st' where p: "poll_submission env now svc m k sd st = (res, st')"
    by (cases "poll_submission env now svc m k sd st")
  have same: "lookup2 st' svc sid = lookup2 st svc sid"
  proof (cases "k = sid")
    case True
    with p poll_submission_unreachable [OF assms, of now sd st] show ?thesis
      by simp
  next
    case False
    with poll_submission_frame [of svc sid svc k env now m sd st] p show ?thesis
      by simp
  qed
  show ?case
  proof (cases res)
    case (Inl err)
    with p same show ?thesis by simp
  next
    case (Inr sd')
    with p same Cons.IH [of sd' st'] show ?thesis by simp
  qed
qed

lemma poll_all_covers:
  assumes "poll_all env now svc m ks sd st = (Inr sd', st')"
    and "k \<in> set ks \<or> lookup2 sd svc k \<noteq> None"
  shows "lookup2 sd' svc k \<noteq> None"
  using assms
proof (induction ks arbitrary: sd st)
  case Nil
  then show ?case by simp
next
  case (Cons j ks)
  from Cons.prems(1) obtain sd1 st1
    where p: "poll_submission env now svc m j sd st = (Inr sd1, st1)"
      and rest: "poll_all env now svc m ks sd1 st1 = (Inr sd', st')"
    by (auto split: prod.splits sum.splits)
  from poll_submission_status_dict [OF p] obtain v where "sd1 = setdefault_assign svc j v sd"
    by blast
  with Cons.prems(2) have "k \<in> set ks \<or> lookup2 sd1 svc k \<noteq> None"
    by (auto simp: lookup2_setdefault_assign)
  with Cons.IH [OF rest] show ?case .
qed

text \<open>A bundle that has a run record in the file keeps one through a poll.\<close>

lemma poll_submission_keeps_run:
  assumes "\<exists>b r. lookup2 st svc i = Some b \<and> run b = Some r"
  shows "\<exists>b r. lookup2 (snd (poll_submission env now svc m k sd st)) svc i = Some b \<and> run b = Some r"
proof -
  obtain res st' where p: "poll_submission env now svc m k sd st = (res, st')"
    by (cases "poll_submission env now svc m k sd st")
  from poll_submission_cases [OF p] assms show ?thesis
    by (auto simp: p lookup2_setdefault_assign)
qed

text \<open>The loop runs to its end when no status request raises anything but
  \<^verbatim>\<open>ConnectionError\<close>.\<close>

lemma poll_all_returns:
  assumes c: "wes_config env svc = Some c"
    and ok: "\<forall>k b r. map_of m k = Some b \<and> run b = Some r \<longrightarrow>
               get_workflow_run_status env c (run_id r) = Inl ConnectionError \<or>
               (\<exists>stt. get_workflow_run_status env c (run_id r) = Inr stt)"
    and keys: "set ks \<subseteq> fst ` set m"
    and runs: "\<forall>k b r. map_of m k = Some b \<and> run b = Some r \<longrightarrow>
                 (\<exists>b' r'. lookup2 st svc k = Some b' \<and> run b' = Some r')"
  shows "\<exists>sd'. fst (poll_all env now svc m ks sd st) = Inr sd'"
  using keys runs
proof (induction ks arbitrary: sd st)
  case Nil
  show ?case by simp
next
  case (Cons k ks)
  from Cons.prems(1) obtain b where b: "map_of m k = Some b"
    by (metis list.set_intros(1) subsetD weak_map_of_SomeI map_of_eq_None_iff not_Some_eq)
  have step: "\<exists>sd1. fst (poll_submission env now svc m k sd st) = Inr sd1"
  proof (cases "run b")
    case None
    with b show ?thesis by (simp add: poll_submission_queued)
  next
    case (Some r)
    from ok b Some consider "get_workflow_run_status env c (run_id r) = Inl ConnectionError"
      | stt where "get_workflow_run_status env c (run_id r) = Inr stt"
      by blast
    then show ?thesis
    proof cases
      case 1
      with b Some c show ?thesis by (simp add: poll_submission_unreachable)
    next
      case 2
      from Cons.prems(2) b Some obtain b' r' where "lookup2 st svc k = Some b'" "run b' = Some r'"
        by blast
      with b Some c 2 show ?thesis by (simp add: poll_submission_polled)
    qed
  qed
  then obtain sd1 st1 where p: "poll_submission env now svc m k sd st = (Inr sd1, st1)"
    by (cases "poll_submission env now svc m k sd st") auto
  have runs1: "\<forall>k b r. map_of m k = Some b \<and> run b = Some r \<longrightarrow>
                 (\<exists>b' r'. lookup2 st1 svc k = Some b' \<and> run b' = Some r')"
  proof (intro allI impI)
    fix i b r assume "map_of m i = Some b \<and> run b = Some r"
    with Cons.prems(2) have "\<exists>b' r'. lookup2 st svc i = Some b' \<and> run b' = Some r'"
      by blast
    from poll_submission_keeps_run [OF this, of env now m k sd]
    show "\<exists>b' r'. lookup2 st1 svc i = Some b' \<and> run b' = Some r'"
      by (simp add: p)
  qed
  from Cons.prems(1) have "set ks \<subseteq> fst ` set m" by simp
  from Cons.IH [OF this runs1, of sd1] show ?case
    by (simp add: p)
qed

text \<open>When every poll of \<open>sid\<close> that returns enters the snapshot \<open>v\<close>, the status
  dictionary of a loop that ran over \<open>sid\<close> has \<open>v\<close> for it.\<close>

lemma poll_all_snapshot:
  assumes step: "\<And>sd st sd1 st1. poll_submission env now svc m sid sd st = (Inr sd1, st1)
                   \<Longrightarrow> sd1 = setdefault_assign svc sid v sd"
    and "poll_all env now svc m ks sd st = (Inr sd', st')"
    and "sid \<in> set ks \<or> lookup2 sd svc sid = Some v"
  shows "lookup2 sd' svc sid = Some v"
  using assms(2,3)
proof (induction ks arbitrary: sd st)
  case Nil
  then show ?case by simp
next
  case (Cons k ks)
  from Cons.prems(1) obtain sd1 st1
    where p: "poll_submission env now svc m k sd st = (Inr sd1, st1)"
      and rest: "poll_all env now svc m ks sd1 st1 = (Inr sd', st')"
    by (auto split: prod.splits sum.splits)
  have "sid \<in> set ks \<or> lookup2 sd1 svc sid = Some v"
  proof (cases "k = sid")
    case True
    with p step [of sd st sd1 st1] show ?thesis
      by (simp add: lookup2_setdefault_assign)
  next
    case False
    from poll_submission_status_dict [OF p] obtain w where "sd1 = setdefault_assign svc k w sd"
      by blast
    with False Cons.prems(2) show ?thesis
      by (auto simp: lookup2_setdefault_assign)
  qed
  with Cons.IH [OF rest] show ?case .
qed

text \<open>After a loop that returned, the file holds for a polled bundle the loaded bundle
  with \<^verbatim>\<open>elapsed_time\<close> assigned; nothing else of it is written.\<close>

lemma poll_all_polled:
  assumes b: "map_of m sid = Some b" and r: "run b = Some r" and c: "wes_config env svc = Some c"
    and g: "get_workflow_run_status env c (run_id r) = Inr stt"
    and "poll_all env now svc m ks sd st = (Inr sd', st')"
    and "lookup2 st svc sid = Some b \<and> sid \<in> set ks \<or>
         lookup2 st svc sid =
           Some (b\<lparr>run := Some (r\<lparr>elapsed_time := Some (etime_of env (now sid) r stt)\<rparr>)\<rparr>)"
  shows "lookup2 st' svc sid =
           Some (b\<lparr>run := Some (r\<lparr>elapsed_time := Some (etime_of env (now sid) r stt)\<rparr>)\<rparr>)"
  using assms(5,6)
proof (induction ks arbitrary: sd st)
  case Nil
  then show ?case by simp
next
  case (Cons k ks)
  let ?b = "b\<lparr>run := Some (r\<lparr>elapsed_time := Some (etime_of env (now sid) r stt)\<rparr>)\<rparr>"
  from Cons.prems(1) obtain sd1 st1
    where p: "poll_submission env now svc m k sd st = (Inr sd1, st1)"
      and rest: "poll_all env now svc m ks sd1 st1 = (Inr sd', st')"
    by (auto split: prod.splits sum.splits)
  have "lookup2 st1 svc sid = Some b \<and> sid \<in> set ks \<or> lookup2 st1 svc sid = Some ?b"
  proof (cases "k = sid")
    case True
    from Cons.prems(2) consider "lookup2 st svc sid = Some b" | "lookup2 st svc sid = Some ?b"
      by blast
    then have "st1 = setdefault_assign svc sid ?b st"
    proof cases
      case 1
      from poll_submission_polled [OF b r c g 1 r, of now sd] p True show ?thesis
        by simp
    next
      case 2
      have "run ?b = Some (r\<lparr>elapsed_time := Some (etime_of env (now sid) r stt)\<rparr>)"
        by simp
      from poll_submission_polled [OF b r c g 2 this, of now sd] p True show ?thesis
        by simp
    qed
    then show ?thesis
      by (simp add: lookup2_setdefault_assign)
  next
    case False
    with poll_submission_frame [of svc sid svc k env now m sd st] p
    have "lookup2 st1 svc sid = lookup2 st svc sid"
      by simp
    with False Cons.prems(2) show ?thesis
      by auto
  qed
  with Cons.IH [OF rest] show ?case .
qed

lemma poll_submission_polled_snapshot:
  assumes "map_of m k = Some b" and "run b = Some r" and "wes_config env svc = Some c"
    and "get_workflow_run_status env c (run_id r) = Inr stt"
    and "poll_submission env now svc m k sd st = (Inr sd1, st1)"
  shows "sd1 = setdefault_assign svc k
                   \<lparr>snap_wf_id = wf_id b, snap_run_id = run_id r, sample_name = sample b,
                    run_status = stt, snap_start_time = start_time r,
                    snap_elapsed_time = etime_of env (now k) r stt\<rparr> sd"
  using assms by (auto simp: poll_submission_def Let_def split: prod.splits sum.splits)

lemma monitor_service_unfold:
  "map_of s svc = Some m \<Longrightarrow>
     monitor_service env now svc s = poll_all env now svc m (map fst m) [] s"
  by (simp add: monitor_service_def)

lemma map_of_keys: "map_of m k = Some b \<Longrightarrow> k \<in> fst ` set m"
  by (metis map_of_eq_None_iff option.distinct(1))

text \<open>A bundle whose poll never writes the file is the same in the file after the loop.\<close>

lemma poll_all_untouched:
  assumes "\<And>sd st. snd (poll_submission env now svc m sid sd st) = st"
  shows "lookup2 (snd (poll_all env now svc m ks sd st)) svc sid = lookup2 st svc sid"
proof (induction ks arbitrary: sd st)
  case Nil
  show ?case by simp
next
  case (Cons k ks)
  obtain res st' where p: "poll_submission env now svc m k sd st = (res, st')"
    by (cases "poll_submission env now svc m k sd st")
  have same: "lookup2 st' svc sid = lookup2 st svc sid"
  proof (cases "k = sid")
    case True
    with p assms [of sd st] show ?thesis
      by simp
  next
    case False
    with poll_submission_frame [of svc sid svc k env now m sd st] p show ?thesis
      by simp
  qed
  show ?case
  proof (cases res)
    case (Inl err)
    with p same show ?thesis by simp
  next
    case (Inr sd')
    with p same Cons.IH [of sd' st'] show ?thesis by simp
  qed
qed

text \<open>
  C5. Let the status request for a submission with a run record fail with
  \<^verbatim>\<open>ConnectionError\<close>. Then the submission's record in the file after
  \<^verbatim>\<open>monitor_service\<close> is the record before it (so \<^verbatim>\<open>run.state\<close>, \<^verbatim>\<open>elapsed_time\<close> and
  \<^verbatim>\<open>status\<close> are the same), however the pass ends; the iteration for the submission
  does not raise: it enters the "unreachable" row (\<^verbatim>\<open>wf_id\<close> \<^verbatim>\<open>ConnectionError\<close>, the
  submission's sample name, and \<^verbatim>\<open>-\<close> for the run id, the run status, the start time and
  the elapsed time) and goes on. When no status request of the pass raises anything other
  than \<^verbatim>\<open>ConnectionError\<close>, the pass returns a status dictionary that has this row for
  the submission and an entry for every submission of the endpoint, and the other
  submissions are polled as usual: one without a run record gets the QUEUED row and
  stays as it is in the file; one whose status request returns a state gets a row with
  that state, and its elapsed time is written to the file.
\<close>

theorem C5_connection_error_contained:
  assumes s: "map_of s svc = Some m" and b: "map_of m sid = Some b" and r: "run b = Some r"
    and c: "wes_config env svc = Some c"
    and g: "get_workflow_run_status env c (run_id r) = Inl ConnectionError"
  shows "lookup2 s svc sid = Some b \<and>
         lookup2 (snd (monitor_service env now svc s)) svc sid = Some b \<and>
         (\<forall>sd st. poll_submission env now svc m sid sd st =
                    (Inr (setdefault_assign svc sid
                            \<lparr>snap_wf_id = ''ConnectionError'', snap_run_id = ''-'',
                             sample_name = sample b, run_status = ''-'',
                             snap_start_time = ''-'', snap_elapsed_time = ''-''\<rparr> sd), st)) \<and>
         ((\<forall>k b' r'. map_of m k = Some b' \<and> run b' = Some r' \<longrightarrow>
               get_workflow_run_status env c (run_id r') = Inl ConnectionError \<or>
               (\<exists>stt. get_workflow_run_status env c (run_id r') = Inr stt))
          \<longrightarrow> (\<exists>sd. fst (monitor_service env now svc s) = Inr sd \<and>
                    lookup2 sd svc sid =
                      Some \<lparr>snap_wf_id = ''ConnectionError'', snap_run_id = ''-'',
                            sample_name = sample b, run_status = ''-'',
                            snap_start_time = ''-'', snap_elapsed_time = ''-''\<rparr> \<and>
                    (\<forall>k \<in> set (map fst m). lookup2 sd svc k \<noteq> None) \<and>
                    (\<forall>k b'. map_of m k = Some b' \<and> run b' = None \<longrightarrow>
                       lookup2 sd svc k =
                         Some \<lparr>snap_wf_id = wf_id b', snap_run_id = ''-'',
                               sample_name = sample b', run_status = ''QUEUED'',
                               snap_start_time = ''-'', snap_elapsed_time = ''-''\<rparr> \<and>
                       lookup2 (snd (monitor_service env now svc s)) svc k = Some b') \<and>
                    (\<forall>k b' r' stt. map_of m k = Some b' \<and> run b' = Some r' \<and>
                         get_workflow_run_status env c (run_id r') = Inr stt \<longrightarrow>
                       lookup2 sd svc k =
                         Some \<lparr>snap_wf_id = wf_id b', snap_run_id = run_id r',
                               sample_name = sample b', run_status = stt,
                               snap_start_time = start_time r',
                               snap_elapsed_time =
                                 (if stt \<in> set [''QUEUED'', ''INITIALIZING'', ''RUNNING'']
                                  then elapsed env (now k) (start_time r')
                                  else (case elapsed_time r' of
                                          None \<Rightarrow> ''0h:0m:0s'' | Some e \<Rightarrow> e))\<rparr> \<and>
                       lookup2 (snd (monitor_service env now svc s)) svc k =
                         Some (b'\<lparr>run := Some (r'\<lparr>elapsed_time :=
                                 Some (if stt \<in> set [''QUEUED'', ''INITIALIZING'', ''RUNNING'']
                                       then elapsed env (now k) (start_time r')
                                       else (case elapsed_time r' of
                                               None \<Rightarrow> ''0h:0m:0s'' | Some e \<Rightarrow> e))\<rparr>)\<rparr>))))"
proof (intro conjI allI impI)
  show l: "lookup2 s svc sid = Some b"
    using s b by (simp add: lookup2_def)
  show "lookup2 (snd (monitor_service env now svc s)) svc sid = Some b"
    using poll_all_frame [OF b r c g, of now "map fst m" "[]" s] l
    by (simp add: monitor_service_unfold [OF s])
  show "poll_submission env now svc m sid sd st =
          (Inr (setdefault_assign svc sid
                  \<lparr>snap_wf_id = ''ConnectionError'', snap_run_id = ''-'',
                   sample_name = sample b, run_status = ''-'',
                   snap_start_time = ''-'', snap_elapsed_time = ''-''\<rparr> sd), st)" for sd st
    using poll_submission_unreachable [OF b r c g, of now sd st]
    by (simp add: unreachable_snapshot_def)
next
  assume ok: "\<forall>k b' r'. map_of m k = Some b' \<and> run b' = Some r' \<longrightarrow>
               get_workflow_run_status env c (run_id r') = Inl ConnectionError \<or>
               (\<exists>stt. get_workflow_run_status env c (run_id r') = Inr stt)"
  have runs: "\<forall>k b r. map_of m k = Some b \<and> run b = Some r \<longrightarrow>
                 (\<exists>b' r'. lookup2 s svc k = Some b' \<and> run b' = Some r')"
    using s by (simp add: lookup2_def)
  have "set (map fst m) \<subseteq> fst ` set m"
    by simp
  from poll_all_returns [OF c ok this runs, of now "[]"]
  obtain sd where sd: "fst (poll_all env now svc m (map fst m) [] s) = Inr sd"
    by blast
  then obtain s' where p: "poll_all env now svc m (map fst m) [] s = (Inr sd, s')"
    by (cases "poll_all env now svc m (map fst m) [] s") auto
  have ms: "monitor_service env now svc s = (Inr sd, s')"
    using p by (simp add: monitor_service_unfold [OF s])
  have u: "lookup2 sd svc sid =
             Some \<lparr>snap_wf_id = ''ConnectionError'', snap_run_id = ''-'',
                   sample_name = sample b, run_status = ''-'',
                   snap_start_time = ''-'', snap_elapsed_time = ''-''\<rparr>"
    by (rule poll_all_snapshot [OF _ p])
       (simp_all add: poll_submission_unreachable [OF b r c g] map_of_keys [OF b]
          unreachable_snapshot_def)
  have cov: "\<forall>k \<in> set (map fst m). lookup2 sd svc k \<noteq> None"
    using poll_all_covers [OF p] by blast
  have queued: "lookup2 sd svc k =
                  Some \<lparr>snap_wf_id = wf_id b', snap_run_id = ''-'',
                        sample_name = sample b', run_status = ''QUEUED'',
                        snap_start_time = ''-'', snap_elapsed_time = ''-''\<rparr> \<and>
                lookup2 s' svc k = Some b'"
    if k: "map_of m k = Some b' \<and> run b' = None" for k b'
  proof
    from k have kb: "map_of m k = Some b'" and kr: "run b' = None"
      by simp_all
    show "lookup2 sd svc k =
            Some \<lparr>snap_wf_id = wf_id b', snap_run_id = ''-'',
                  sample_name = sample b', run_status = ''QUEUED'',
                  snap_start_time = ''-'', snap_elapsed_time = ''-''\<rparr>"
      by (rule poll_all_snapshot [OF _ p])
         (simp_all add: poll_submission_queued [OF kb kr] map_of_keys [OF kb]
            queued_snapshot_def)
    have "lookup2 s' svc k = lookup2 s svc k"
      using poll_all_untouched [of env now svc m k "map fst m" "[]" s] p
      by (simp add: poll_submission_queued [OF kb kr])
    with s kb show "lookup2 s' svc k = Some b'"
      by (simp add: lookup2_def)
  qed
  have polled: "lookup2 sd svc k =
                  Some \<lparr>snap_wf_id = wf_id b', snap_run_id = run_id r',
                        sample_name = sample b', run_status = stt,
                        snap_start_time = start_time r',
                        snap_elapsed_time =
                          (if stt \<in> set [''QUEUED'', ''INITIALIZING'', ''RUNNING'']
                           then elapsed env (now k) (start_time r')
                           else (case elapsed_time r' of
                                   None \<Rightarrow> ''0h:0m:0s'' | Some e \<Rightarrow> e))\<rparr> \<and>
                lookup2 s' svc k =
                  Some (b'\<lparr>run := Some (r'\<lparr>elapsed_time :=
                          Some (if stt \<in> set [''QUEUED'', ''INITIALIZING'', ''RUNNING'']
                                then elapsed env (now k) (start_time r')
                                else (case elapsed_time r' of
                                        None \<Rightarrow> ''0h:0m:0s'' | Some e \<Rightarrow> e))\<rparr>)\<rparr>)"
    if k: "map_of m k = Some b' \<and> run b' = Some r' \<and>
           get_workflow_run_status env c (run_id r') = Inr stt" for k b' r' stt
  proof -
    from k have kb: "map_of m k = Some b'" and kr: "run b' = Some r'"
      and kg: "get_workflow_run_status env c (run_id r') = Inr stt"
      by simp_all
    have e: "etime_of env (now k) r' stt =
               (if stt \<in> set [''QUEUED'', ''INITIALIZING'', ''RUNNING'']
                then elapsed env (now k) (start_time r')
                else (case elapsed_time r' of None \<Rightarrow> ''0h:0m:0s'' | Some e \<Rightarrow> e))"
      by (simp add: etime_of_def active_states_def)
    have l: "lookup2 s svc k = Some b'"
      using s kb by (simp add: lookup2_def)
    have 1: "lookup2 s' svc k =
               Some (b'\<lparr>run := Some (r'\<lparr>elapsed_time := Some (etime_of env (now k) r' stt)\<rparr>)\<rparr>)"
      by (rule poll_all_polled [OF kb kr c kg p]) (simp add: l map_of_keys [OF kb])
    have 2: "lookup2 sd svc k =
               Some \<lparr>snap_wf_id = wf_id b', snap_run_id = run_id r', sample_name = sample b',
                     run_status = stt, snap_start_time = start_time r',
                     snap_elapsed_time = etime_of env (now k) r' stt\<rparr>"
      by (rule poll_all_snapshot [OF poll_submission_polled_snapshot [OF kb kr c kg] p])
         (simp_all add: map_of_keys [OF kb])
    from 1 2 show ?thesis
      unfolding e by simp
  qed
  show "\<exists>sd. fst (monitor_service env now svc s) = Inr sd \<and>
          lookup2 sd svc sid =
            Some \<lparr>snap_wf_id = ''ConnectionError'', snap_run_id = ''-'',
                  sample_name = sample b, run_status = ''-'',
                  snap_start_time = ''-'', snap_elapsed_time = ''-''\<rparr> \<and>
          (\<forall>k \<in> set (map fst m). lookup2 sd svc k \<noteq> None) \<and>
          (\<forall>k b'. map_of m k = Some b' \<and> run b' = None \<longrightarrow>
             lookup2 sd svc k =
               Some \<lparr>snap_wf_id = wf_id b', snap_run_id = ''-'',
                     sample_name = sample b', run_status = ''QUEUED'',
                     snap_start_time = ''-'', snap_elapsed_time = ''-''\<rparr> \<and>
             lookup2 (snd (monitor_service env now svc s)) svc k = Some b') \<and>
          (\<forall>k b' r' stt. map_of m k = Some b' \<and> run b' = Some r' \<and>
               get_workflow_run_status env c (run_id r') = Inr stt \<longrightarrow>
             lookup2 sd svc k =
               Some \<lparr>snap_wf_id = wf_id b', snap_run_id = run_id r',
                     sample_name = sample b', run_status = stt,
                     snap_start_time = start_time r',
                     snap_elapsed_time =
                       (if stt \<in> set [''QUEUED'', ''INITIALIZING'', ''RUNNING'']
                        then elapsed env (now k) (start_time r')
                        else (case elapsed_time r' of
                                None \<Rightarrow> ''0h:0m:0s'' | Some e \<Rightarrow> e))\<rparr> \<and>
             lookup2 (snd (monitor_service env now svc s)) svc k =
               Some (b'\<lparr>run := Some (r'\<lparr>elapsed_time :=
                       Some (if stt \<in> set [''QUEUED'', ''INITIALIZING'', ''RUNNING'']
                             then elapsed env (now k) (start_time r')
                             else (case elapsed_time r' of
                                     None \<Rightarrow> ''0h:0m:0s'' | Some e \<Rightarrow> e))\<rparr>)\<rparr>))"
    unfolding ms fst_conv snd_conv
    using u cov queued polled by blast
qed

text \<open>
  C4 (amended). Let a poll pass that returns observe, for a submission with a run record,
  a remote state that is none of QUEUED, INITIALIZING, RUNNING. Then the file holds the
  submission as loaded, with \<^verbatim>\<open>elapsed_time\<close> set to its previous value, or to
  \<^verbatim>\<open>0h:0m:0s\<close> when it had none; the status is the one it had before the poll (it is not
  advanced), and the snapshot reports the remote state and that elapsed time.
\<close>

theorem C4_terminal_poll_freezes_elapsed_time:
  assumes s: "map_of s svc = Some m" and b: "map_of m sid = Some b" and r: "run b = Some r"
    and c: "wes_config env svc = Some c"
    and g: "get_workflow_run_status env c (run_id r) = Inr stt"
    and t: "stt \<notin> set active_states"
    and p: "monitor_service env now svc s = (Inr sd, s')"
  shows "lookup2 s' svc sid =
           Some (b\<lparr>run := Some (r\<lparr>elapsed_time :=
                   Some (case elapsed_time r of None \<Rightarrow> ''0h:0m:0s'' | Some e \<Rightarrow> e)\<rparr>)\<rparr>) \<and>
         map_option status (lookup2 s' svc sid) = Some (status b) \<and>
         lookup2 sd svc sid =
           Some \<lparr>snap_wf_id = wf_id b, snap_run_id = run_id r, sample_name = sample b,
                 run_status = stt, snap_start_time = start_time r,
                 snap_elapsed_time =
                   (case elapsed_time r of None \<Rightarrow> ''0h:0m:0s'' | Some e \<Rightarrow> e)\<rparr>"
proof -
  have e: "etime_of env (now sid) r stt =
             (case elapsed_time r of None \<Rightarrow> ''0h:0m:0s'' | Some e \<Rightarrow> e)"
    using t by (simp add: etime_of_def)
  have pa: "poll_all env now svc m (map fst m) [] s = (Inr sd, s')"
    using p by (simp add: monitor_service_unfold [OF s])
  have l: "lookup2 s svc sid = Some b"
    using s b by (simp add: lookup2_def)
  have 1: "lookup2 s' svc sid =
             Some (b\<lparr>run := Some (r\<lparr>elapsed_time := Some (etime_of env (now sid) r stt)\<rparr>)\<rparr>)"
    by (rule poll_all_polled [OF b r c g pa]) (simp add: l map_of_keys [OF b])
  have 2: "lookup2 sd svc sid =
           Some \<lparr>snap_wf_id = wf_id b, snap_run_id = run_id r, sample_name = sample b,
                 run_status = stt, snap_start_time = start_time r,
                 snap_elapsed_time = etime_of env (now sid) r stt\<rparr>"
    by (rule poll_all_snapshot [OF poll_submission_polled_snapshot [OF b r c g] pa])
       (simp_all add: map_of_keys [OF b])
  from 1 2 show ?thesis
    by (simp add: e)
qed


lemma get_status_env_up: "get_workflow_run_status env_up c i = Inr ''COMPLETE''"
  by (simp add: env_up_def)

lemma get_status_env_down: "get_workflow_run_status env_down c i = Inl ConnectionError"
  by (simp add: env_down_def)

lemma map_of_submitted_queue: "map_of submitted_queue ''local'' = Some [(jan31_id, submitted_bundle)]"
  by (simp add: submitted_queue_def)

lemma run_submitted_bundle: "run submitted_bundle = Some run1"
  by (simp add: submitted_bundle_def)

lemma monitor_submitted_queue:
  "monitor_service env_up noon ''local'' submitted_queue =
     (Inr [(''local'', [(jan31_id,
             \<lparr>snap_wf_id = ''md5sum'', snap_run_id = ''run1'', sample_name = ''NA'',
              run_status = ''COMPLETE'', snap_start_time = ''Wed Jan 31 12:00:00 2018'',
              snap_elapsed_time = ''0h:0m:0s''\<rparr>)])],
      [(''local'', [(jan31_id,
          submitted_bundle\<lparr>run := Some (run1\<lparr>elapsed_time := Some ''0h:0m:0s''\<rparr>)\<rparr>)])])"
  by (simp add: monitor_service_def submitted_queue_def poll_submission_def
        run_submitted_bundle wes_config_env_up get_status_env_up etime_of_def active_states_def
        update_submission_run_def setdefault_assign_def Let_def)
     (simp add: submitted_bundle_def received_bundle_def new_bundle_def run1_def)

text \<open>
  C4 (as stated, refuted). The claim: a poll that observes a terminal remote state also
  advances the persisted status to COMPLETE or ERROR. Here a SUBMITTED submission is
  polled and the remote reports COMPLETE; the persisted status afterwards is SUBMITTED.
\<close>

theorem C4_status_not_advanced:
  "lookup2 submitted_queue ''local'' jan31_id = Some submitted_bundle \<and>
   status submitted_bundle = ''SUBMITTED'' \<and> run submitted_bundle = Some run1 \<and>
   get_workflow_run_status env_up () (run_id run1) = Inr ''COMPLETE'' \<and>
   map_option status
     (lookup2 (snd (monitor_service env_up noon ''local'' submitted_queue)) ''local'' jan31_id)
     = Some ''SUBMITTED''"
  by (simp add: monitor_submitted_queue get_status_env_up run_submitted_bundle)
     (simp add: lookup2_def submitted_queue_def submitted_bundle_def)

theorem C4_terminal_poll_freezes_elapsed_time_witness:
  "lookup2 (snd (monitor_service env_up noon ''local'' submitted_queue)) ''local'' jan31_id =
     Some (submitted_bundle\<lparr>run := Some (run1\<lparr>elapsed_time := Some ''0h:0m:0s''\<rparr>)\<rparr>) \<and>
   (\<exists>sd. fst (monitor_service env_up noon ''local'' submitted_queue) = Inr sd \<and>
         map_option run_status (lookup2 sd ''local'' jan31_id) = Some ''COMPLETE'')"
proof -
  have m: "map_of [(jan31_id, submitted_bundle)] jan31_id = Some submitted_bundle"
    by simp
  have t: "''COMPLETE'' \<notin> set active_states"
    by (simp add: active_states_def)
  have e: "elapsed_time run1 = None"
    by (simp add: run1_def)
  from C4_terminal_poll_freezes_elapsed_time [OF map_of_submitted_queue m run_submitted_bundle wes_config_env_up
             get_status_env_up t monitor_submitted_queue]
  show ?thesis
    by (simp add: monitor_submitted_queue e)
qed

theorem C5_connection_error_contained_witness:
  "lookup2 (snd (monitor_service env_flaky noon ''local'' mixed_queue)) ''local'' jan31_id
     = Some submitted_bundle \<and>
   (\<exists>sd. fst (monitor_service env_flaky noon ''local'' mixed_queue) = Inr sd \<and>
         lookup2 sd ''local'' jan31_id =
           Some \<lparr>snap_wf_id = ''ConnectionError'', snap_run_id = ''-'', sample_name = ''NA'',
                 run_status = ''-'', snap_start_time = ''-'', snap_elapsed_time = ''-''\<rparr> \<and>
         lookup2 sd ''local'' feb01_id =
           Some \<lparr>snap_wf_id = ''md5sum'', snap_run_id = ''run2'', sample_name = ''NA'',
                 run_status = ''RUNNING'', snap_start_time = ''Thu Feb  1 11:59:59 2018'',
                 snap_elapsed_time = ''0h:0m:1s''\<rparr> \<and>
         lookup2 sd ''local'' feb02_id =
           Some \<lparr>snap_wf_id = ''md5sum'', snap_run_id = ''-'', sample_name = ''NA'',
                 run_status = ''QUEUED'', snap_start_time = ''-'', snap_elapsed_time = ''-''\<rparr>) \<and>
   lookup2 (snd (monitor_service env_flaky noon ''local'' mixed_queue)) ''local'' feb01_id
     = Some (running_bundle\<lparr>run := Some (run2\<lparr>elapsed_time := Some ''0h:0m:1s''\<rparr>)\<rparr>)"
proof -
  have s: "map_of mixed_queue ''local'' = Some mixed_bundles"
    by (simp add: mixed_queue_def)
  have b1: "map_of mixed_bundles jan31_id = Some submitted_bundle"
    by (simp add: mixed_bundles_def)
  have b2: "map_of mixed_bundles feb01_id = Some running_bundle"
    by (simp add: mixed_bundles_def jan31_id_def feb01_id_def)
  have b3: "map_of mixed_bundles feb02_id = Some received_bundle"
    by (simp add: mixed_bundles_def jan31_id_def feb01_id_def feb02_id_def)
  have r2: "run running_bundle = Some run2"
    by (simp add: running_bundle_def)
  have r3: "run received_bundle = None"
    by (simp add: received_bundle_def new_bundle_def)
  have c: "wes_config env_flaky ''local'' = Some ()"
    by (simp add: env_flaky_def env_up_def)
  have g1: "get_workflow_run_status env_flaky () (run_id run1) = Inl ConnectionError"
    by (simp add: env_flaky_def run1_def)
  have g2: "get_workflow_run_status env_flaky () (run_id run2) = Inr ''RUNNING''"
    by (simp add: env_flaky_def run2_def)
  have ok: "\<forall>k b' r'. map_of mixed_bundles k = Some b' \<and> run b' = Some r' \<longrightarrow>
              get_workflow_run_status env_flaky () (run_id r') = Inl ConnectionError \<or>
              (\<exists>stt. get_workflow_run_status env_flaky () (run_id r') = Inr stt)"
    by (simp add: env_flaky_def)
  note T = C5_connection_error_contained [OF s b1 run_submitted_bundle c g1, of noon]
  from T have kept:
    "lookup2 (snd (monitor_service env_flaky noon ''local'' mixed_queue)) ''local'' jan31_id
       = Some submitted_bundle"
    by blast
  from T ok obtain sd
    where f: "fst (monitor_service env_flaky noon ''local'' mixed_queue) = Inr sd"
      and u: "lookup2 sd ''local'' jan31_id =
                Some \<lparr>snap_wf_id = ''ConnectionError'', snap_run_id = ''-'',
                      sample_name = sample submitted_bundle, run_status = ''-'',
                      snap_start_time = ''-'', snap_elapsed_time = ''-''\<rparr>"
      and q: "\<forall>k b'. map_of mixed_bundles k = Some b' \<and> run b' = None \<longrightarrow>
                lookup2 sd ''local'' k =
                  Some \<lparr>snap_wf_id = wf_id b', snap_run_id = ''-'',
                        sample_name = sample b', run_status = ''QUEUED'',
                        snap_start_time = ''-'', snap_elapsed_time = ''-''\<rparr> \<and>
                lookup2 (snd (monitor_service env_flaky noon ''local'' mixed_queue)) ''local'' k
                  = Some b'"
      and p: "\<forall>k b' r' stt. map_of mixed_bundles k = Some b' \<and> run b' = Some r' \<and>
                  get_workflow_run_status env_flaky () (run_id r') = Inr stt \<longrightarrow>
                lookup2 sd ''local'' k =
                  Some \<lparr>snap_wf_id = wf_id b', snap_run_id = run_id r',
                        sample_name = sample b', run_status = stt,
                        snap_start_time = start_time r',
                        snap_elapsed_time =
                          (if stt \<in> set [''QUEUED'', ''INITIALIZING'', ''RUNNING'']
                           then elapsed env_flaky (noon k) (start_time r')
                           else (case elapsed_time r' of
                                   None \<Rightarrow> ''0h:0m:0s'' | Some e \<Rightarrow> e))\<rparr> \<and>
                lookup2 (snd (monitor_service env_flaky noon ''local'' mixed_queue)) ''local'' k =
                  Some (b'\<lparr>run := Some (r'\<lparr>elapsed_time :=
                          Some (if stt \<in> set [''QUEUED'', ''INITIALIZING'', ''RUNNING'']
                                then elapsed env_flaky (noon k) (start_time r')
                                else (case elapsed_time r' of
                                        None \<Rightarrow> ''0h:0m:0s'' | Some e \<Rightarrow> e))\<rparr>)\<rparr>)"
    by blast
  have e: "elapsed env_flaky t st = ''0h:0m:1s''" for t st
    by (simp add: env_flaky_def env_up_def)
  from u have u': "lookup2 sd ''local'' jan31_id =
           Some \<lparr>snap_wf_id = ''ConnectionError'', snap_run_id = ''-'', sample_name = ''NA'',
                 run_status = ''-'', snap_start_time = ''-'', snap_elapsed_time = ''-''\<rparr>"
    by (simp add: submitted_bundle_def received_bundle_def new_bundle_def)
  from q [rule_format, of feb02_id received_bundle] b3 r3
  have q': "lookup2 sd ''local'' feb02_id =
           Some \<lparr>snap_wf_id = ''md5sum'', snap_run_id = ''-'', sample_name = ''NA'',
                 run_status = ''QUEUED'', snap_start_time = ''-'', snap_elapsed_time = ''-''\<rparr>"
    by (simp add: received_bundle_def new_bundle_def)
  from p [rule_format, of feb01_id running_bundle run2 "''RUNNING''"] b2 r2 g2
  have p': "lookup2 sd ''local'' feb01_id =
           Some \<lparr>snap_wf_id = ''md5sum'', snap_run_id = ''run2'', sample_name = ''NA'',
                 run_status = ''RUNNING'', snap_start_time = ''Thu Feb  1 11:59:59 2018'',
                 snap_elapsed_time = ''0h:0m:1s''\<rparr>"
    and p'': "lookup2 (snd (monitor_service env_flaky noon ''local'' mixed_queue)) ''local'' feb01_id
       = Some (running_bundle\<lparr>run := Some (run2\<lparr>elapsed_time := Some ''0h:0m:1s''\<rparr>)\<rparr>)"
    by (simp_all add: e running_bundle_def received_bundle_def new_bundle_def run2_def)
  from kept f u' p' q' p'' show ?thesis
    by blast
qed

section \<open>Preservation of the run record invariant\<close>

lemma list_all_update:
  "P (k, v) \<Longrightarrow> list_all P al \<Longrightarrow> list_all P (AList.update k v al)"
  by (induction al) auto

lemma store_inv_setdefault_assign:
  assumes "run_iff_not_received v" and "store_inv s"
  shows "store_inv (setdefault_assign e i v s)"
proof -
  let ?Q = "list_all (\<lambda>(i, bundle). run_iff_not_received bundle)"
  let ?m = "case map_of s e of None \<Rightarrow> [] | Some m \<Rightarrow> m"
  have "?Q ?m"
  proof (cases "map_of s e")
    case None
    then show ?thesis by simp
  next
    case (Some m)
    then have "(e, m) \<in> set s"
      by (rule map_of_SomeD)
    with assms(2) show ?thesis
      by (auto simp: Some store_inv_def list_all_iff)
  qed
  with assms(1) have "?Q (AList.update i v ?m)"
    by (simp add: list_all_update)
  with assms(2) show ?thesis
    unfolding store_inv_def setdefault_assign_def
    by (intro list_all_update) simp_all
qed

lemma store_inv_lookup2:
  assumes "store_inv s" and "lookup2 s e i = Some b"
  shows "run_iff_not_received b"
proof -
  from assms(2) obtain m where m: "map_of s e = Some m" and b: "map_of m i = Some b"
    by (auto simp: lookup2_def split: option.splits)
  from m have "(e, m) \<in> set s" by (rule map_of_SomeD)
  moreover from b have "(i, b) \<in> set m" by (rule map_of_SomeD)
  ultimately show ?thesis
    using assms(1) by (auto simp: store_inv_def list_all_iff)
qed

lemma get_submission_bundle_Inr:
  "get_submission_bundle e i s = Inr b \<Longrightarrow> lookup2 s e i = Some b"
  by (auto simp: lookup2_def get_submission_bundle_def split: option.splits)

lemma run_submission_cases:
  "snd (run_submission env now e i s) = s \<or>
   (\<exists>b rd. snd (run_submission env now e i s) =
              setdefault_assign e i (b\<lparr>run := Some rd, status := ''SUBMITTED''\<rparr>) s)"
proof (cases "get_submission_bundle e i s")
  case (Inl err)
  then show ?thesis by (simp add: run_submission_def)
next
  case (Inr b)
  then have l: "lookup2 s e i = Some b"
    by (rule get_submission_bundle_Inr)
  show ?thesis
  proof (cases "wes_config env e")
    case None
    with Inr show ?thesis by (simp add: run_submission_def)
  next
    case (Some c)
    show ?thesis
    proof (cases "run_workflow env c (wf (data b)) (jsonyaml (data b)) (attachments (data b))")
      case (Inl err)
      with l Some show ?thesis by (simp add: run_submission_start_failed)
    next
      case (Inr r)
      from run_submission_started [OF l Some Inr, of now] show ?thesis
        by (metis snd_conv)
    qed
  qed
qed

lemma store_inv_run_submission:
  assumes "store_inv s"
  shows "store_inv (snd (run_submission env now e i s))"
proof -
  have "run_iff_not_received (b\<lparr>run := Some rd, status := ''SUBMITTED''\<rparr>)" for b rd
    by (simp add: run_iff_not_received_def)
  with run_submission_cases [of env now e i s] assms show ?thesis
    by (auto simp: store_inv_setdefault_assign)
qed

lemma store_inv_create_submission:
  "store_inv s \<Longrightarrow> store_inv (snd (create_submission now e d ty n sa s))"
  by (simp add: create_submission_def Let_def store_inv_setdefault_assign
        run_iff_not_received_def new_bundle_def)

lemma store_inv_queue:
  "store_inv s \<Longrightarrow> store_inv (snd (queue env now e n j sa attach s))"
  using store_inv_create_submission [of s]
  by (auto simp: queue_def Let_def split: option.splits prod.splits)
     (metis snd_conv)

lemma store_inv_no_queue_run:
  assumes "store_inv s"
  shows "store_inv (snd (no_queue_run env now now' e n j sa attach s))"
proof (cases "queue env now e n j sa attach s")
  case (Pair res s1)
  with store_inv_queue [OF assms, of env now e n j sa attach] have s1: "store_inv s1"
    by simp
  show ?thesis
  proof (cases res)
    case (Inl err)
    with Pair s1 show ?thesis by (simp add: no_queue_run_def)
  next
    case (Inr i)
    with Pair store_inv_run_submission [OF s1, of env now' e i] show ?thesis
      by (auto simp: no_queue_run_def split: prod.splits sum.splits)
  qed
qed

lemma store_inv_run_next_queued:
  assumes "store_inv s"
  shows "store_inv (snd (run_next_queued env now e s))"
proof -
  have "snd (run_next_queued env now e s) = s \<or>
        (\<exists>i. snd (run_next_queued env now e s) = snd (run_submission env now e i s))"
    by (simp add: run_next_queued_def split: sum.splits list.splits prod.splits)
       (metis snd_conv)
  with assms store_inv_run_submission [OF assms] show ?thesis
    by auto
qed

lemma store_inv_poll_submission:
  assumes "store_inv st"
  shows "store_inv (snd (poll_submission env now svc m k sd st))"
proof -
  obtain res st' where p: "poll_submission env now svc m k sd st = (res, st')"
    by (cases "poll_submission env now svc m k sd st")
  from poll_submission_cases [OF p] show ?thesis
  proof
    assume "st' = st"
    with assms p show ?thesis by simp
  next
    assume "\<exists>b r t sd'. lookup2 st svc k = Some b \<and> run b = Some r \<and> res = Inr sd' \<and>
        st' = setdefault_assign svc k (b\<lparr>run := Some (r\<lparr>elapsed_time := Some t\<rparr>)\<rparr>) st"
    then obtain b r t where l: "lookup2 st svc k = Some b" and r: "run b = Some r"
      and st': "st' = setdefault_assign svc k (b\<lparr>run := Some (r\<lparr>elapsed_time := Some t\<rparr>)\<rparr>) st"
      by blast
    from store_inv_lookup2 [OF assms l] r
    have "run_iff_not_received (b\<lparr>run := Some (r\<lparr>elapsed_time := Some t\<rparr>)\<rparr>)"
      by (simp add: run_iff_not_received_def)
    with assms show ?thesis
      by (simp add: p st' store_inv_setdefault_assign)
  qed
qed

lemma store_inv_poll_all:
  "store_inv st \<Longrightarrow> store_inv (snd (poll_all env now svc m ks sd st))"
proof (induction ks arbitrary: sd st)
  case Nil
  then show ?case by simp
next
  case (Cons k ks)
  obtain res st1 where p: "poll_submission env now svc m k sd st = (res, st1)"
    by (cases "poll_submission env now svc m k sd st")
  with store_inv_poll_submission [OF Cons.prems, of env now svc m k sd] have "store_inv st1"
    by simp
  with Cons.IH p show ?case
    by (cases res) simp_all
qed

lemma store_inv_monitor_service:
  "store_inv s \<Longrightarrow> store_inv (snd (monitor_service env now svc s))"
  by (simp add: monitor_service_def store_inv_poll_all split: option.splits)

lemma store_inv_monitor_services:
  "store_inv s \<Longrightarrow> store_inv (snd (monitor_services env now svcs s))"
proof (induction svcs arbitrary: s)
  case Nil
  then show ?case by simp
next
  case (Cons svc svcs)
  obtain res s1 where p: "monitor_service env (now svc) svc s = (res, s1)"
    by (cases "monitor_service env (now svc) svc s")
  with store_inv_monitor_service [OF Cons.prems, of env "now svc" svc] have "store_inv s1"
    by simp
  from Cons.IH [OF this] p show ?case
    by (cases res) (auto simp: \<open>store_inv s1\<close> split: prod.splits sum.splits)
qed

lemma store_inv_perform: "store_inv s \<Longrightarrow> store_inv (perform env op s)"
  by (cases op)
     (simp_all add: store_inv_create_submission store_inv_queue store_inv_no_queue_run
        store_inv_run_submission store_inv_run_next_queued store_inv_monitor_service
        store_inv_monitor_services)

text \<open>
  C6. Every operation keeps the invariant "a bundle has a run record exactly when its
  status is not RECEIVED" for every bundle of the file, whether the operation returns or
  raises; so every queue reached from the empty document by a sequence of operations
  satisfies it.
\<close>

theorem C6_run_present_iff_not_received:
  "(store_inv s \<longrightarrow> store_inv (perform env op s)) \<and>
   store_inv (foldl (\<lambda>s op. perform env op s) [] ops)"
proof
  show "store_inv s \<longrightarrow> store_inv (perform env op s)"
    by (simp add: store_inv_perform)
  have "store_inv s \<Longrightarrow> store_inv (foldl (\<lambda>s op. perform env op s) s ops)" for s
    by (induction ops arbitrary: s) (simp_all add: store_inv_perform)
  then show "store_inv (foldl (\<lambda>s op. perform env op s) [] ops)"
    by (simp add: store_inv_def)
qed


theorem C6_run_present_iff_not_received_witness:
  "store_inv received_queue \<and>
   store_inv (perform env_up (Run_submission t_feb01 ''local'' jan31_id) received_queue)"
proof -
  have h: "store_inv received_queue"
    by (simp add: store_inv_def received_queue_def run_iff_not_received_def
          received_bundle_def new_bundle_def)
  with C6_run_present_iff_not_received [of received_queue env_up "Run_submission t_feb01 ''local'' jan31_id" "[]"]
  show ?thesis
    by blast
qed

section \<open>The monitor loop\<close>

text \<open>Whatever the queue and the endpoints, \<^verbatim>\<open>monitor\<close> does not return: a call that ends,
  ends with an exception.\<close>

lemma monitor_never_returns:
  assumes "monitor env clock n s = Some y"
  shows "\<exists>err s'. y = (Inl err, s')"
  by (rule monitor.raw_induct
        [where P = "\<lambda>env clock n s y. \<exists>err s'. y = (Inl err, s')", OF _ assms])
     (auto split: prod.splits sum.splits)

lemma run_complete_bundle:
  "run complete_bundle = Some (run1\<lparr>state := Some ''COMPLETE'', elapsed_time := Some ''0h:0m:7s''\<rparr>)"
  by (simp add: complete_bundle_def)

lemma monitor_service_complete_queue:
  "monitor_service env_up now ''local'' complete_queue =
     (Inr [(''local'', [(jan31_id,
             \<lparr>snap_wf_id = ''md5sum'', snap_run_id = ''run1'', sample_name = ''NA'',
              run_status = ''COMPLETE'', snap_start_time = ''Wed Jan 31 12:00:00 2018'',
              snap_elapsed_time = ''0h:0m:7s''\<rparr>)])], complete_queue)"
  by (simp add: monitor_service_def complete_queue_def poll_submission_def
        run_complete_bundle wes_config_env_up get_status_env_up etime_of_def
        active_states_def update_submission_run_def setdefault_assign_def Let_def)
     (simp add: complete_bundle_def received_bundle_def new_bundle_def run1_def)

lemma monitor_services_complete_queue:
  "monitor_services env_up now (map fst complete_queue) complete_queue =
     (Inr [[(''local'', [(jan31_id,
             \<lparr>snap_wf_id = ''md5sum'', snap_run_id = ''run1'', sample_name = ''NA'',
              run_status = ''COMPLETE'', snap_start_time = ''Wed Jan 31 12:00:00 2018'',
              snap_elapsed_time = ''0h:0m:7s''\<rparr>)])]], complete_queue)"
proof -
  have "map fst complete_queue = [''local'']"
    by (simp add: complete_queue_def)
  then show ?thesis
    by (simp add: monitor_service_complete_queue)
qed

lemma monitor_complete_queue_aux:
  assumes "monitor env clock n s = Some y"
  shows "\<not> (env = env_up \<and> s = complete_queue)"
proof (rule monitor.raw_induct
        [where P = "\<lambda>env clock n s y. \<not> (env = env_up \<and> s = complete_queue)", OF _ assms])
  fix monitor' :: "unit env \<Rightarrow> (nat \<Rightarrow> string \<Rightarrow> string \<Rightarrow> datetime) \<Rightarrow> nat \<Rightarrow> queue
                     \<Rightarrow> ((error + unit) \<times> queue) option"
    and env clock n s y
  assume IH: "\<And>env clock n s y. monitor' env clock n s = Some y
                \<Longrightarrow> \<not> (env = env_up \<and> s = complete_queue)"
    and step: "(case monitor_services env (clock n) (map fst s) s of
                  (Inl e, s) \<Rightarrow> Some (Inl e, s)
                | (Inr statuses, s) \<Rightarrow> monitor' env clock (Suc n) s) = Some y"
  show "\<not> (env = env_up \<and> s = complete_queue)"
  proof
    assume "env = env_up \<and> s = complete_queue"
    with step have "monitor' env_up clock (Suc n) complete_queue = Some y"
      by (simp add: monitor_services_complete_queue)
    from IH [OF this] show False
      by simp
  qed
qed

text \<open>
  C9 (fails on the code). The claim: when every submission of every endpoint is COMPLETE or
  ERROR, the monitor loop stops after its poll pass. Here the queue holds one submission,
  which is COMPLETE, and the endpoint reports it COMPLETE; the pass returns and leaves the
  file as it is, and \<^verbatim>\<open>monitor\<close> goes round again: the call does not return.
\<close>

theorem C9_monitor_does_not_return:
  "complete_queue = [(''local'', [(jan31_id, complete_bundle)])] \<and>
   status complete_bundle = ''COMPLETE'' \<and>
   snd (monitor_services env_up (noon_clock 0) (map fst complete_queue) complete_queue)
     = complete_queue \<and>
   monitor env_up noon_clock 0 complete_queue = None"
proof -
  have "monitor env_up noon_clock 0 complete_queue = None"
    using monitor_complete_queue_aux [of env_up noon_clock 0 complete_queue]
    by (cases "monitor env_up noon_clock 0 complete_queue") auto
  moreover have "status complete_bundle = ''COMPLETE''"
    by (simp add: complete_bundle_def)
  ultimately show ?thesis
    by (simp add: monitor_services_complete_queue) (simp add: complete_queue_def)
qed

section \<open>The earlier monitor does not return either\<close>

lemma all_running_setdefault_assign:
  assumes "row_run_status v = ''RUNNING''" and "all_running sd"
  shows "all_running (setdefault_assign e i v sd)"
proof -
  let ?Q = "list_all (\<lambda>(j, row). row_run_status row = ''RUNNING'')"
  let ?d = "case map_of sd e of None \<Rightarrow> [] | Some d \<Rightarrow> d"
  have "?Q ?d"
  proof (cases "map_of sd e")
    case None
    then show ?thesis by simp
  next
    case (Some d)
    then have "(e, d) \<in> set sd"
      by (rule map_of_SomeD)
    with assms(2) show ?thesis
      by (auto simp: Some all_running_def list_all_iff)
  qed
  with assms(1) have "?Q (AList.update i v ?d)"
    by (simp add: list_all_update)
  with assms(2) show ?thesis
    unfolding all_running_def setdefault_assign_def
    by (intro list_all_update) simp_all
qed

lemma all_running_earlier_poll:
  "all_running sd \<Longrightarrow> earlier_poll env current svc m k sd = Inr sd' \<Longrightarrow> all_running sd'"
  by (auto simp: earlier_poll_def Let_def all_running_setdefault_assign split: option.splits)

lemma all_running_earlier_poll_all:
  "all_running sd \<Longrightarrow> earlier_poll_all env current svc m ks sd = Inr sd' \<Longrightarrow> all_running sd'"
proof (induction ks arbitrary: sd)
  case Nil
  then show ?case by simp
next
  case (Cons k ks)
  from Cons.prems(2) obtain sd1 where p: "earlier_poll env current svc m k sd = Inr sd1"
    and rest: "earlier_poll_all env current svc m ks sd1 = Inr sd'"
    by (auto split: sum.splits)
  from all_running_earlier_poll [OF Cons.prems(1) p] have "all_running sd1" .
  from Cons.IH [OF this rest] show ?case .
qed

lemma all_running_earlier_statuses:
  "earlier_statuses env current submissions svcs = Inr statuses \<Longrightarrow> list_all all_running statuses"
proof (induction svcs arbitrary: statuses)
  case Nil
  then show ?case by simp
next
  case (Cons svc svcs)
  from Cons.prems obtain m sd rest where m: "map_of submissions svc = Some m"
    and sd: "earlier_poll_all env current svc m (map fst m) [] = Inr sd"
    and rest: "earlier_statuses env current submissions svcs = Inr rest"
    and st: "statuses = sd # rest"
    by (auto split: option.splits sum.splits)
  have "all_running []"
    by (simp add: all_running_def)
  from all_running_earlier_poll_all [OF this sd] Cons.IH [OF rest] st show ?case
    by simp
qed

lemma table_rows_running:
  assumes "list_all all_running statuses" and "row \<in> set (table_rows statuses)"
  shows "row_run_status row = ''RUNNING''"
  using assms by (fastforce simp: table_rows_def all_running_def list_all_iff)

text \<open>Every row of the table is RUNNING, so the test that would end the recursion is never
  false: a call of the earlier monitor that ends, ends with an exception.\<close>

lemma earlier_monitor_never_returns:
  assumes "earlier_monitor env clock persisted n submissions = Some y"
  shows "\<exists>err. y = Inl err"
proof (rule earlier_monitor.raw_induct
        [where P = "\<lambda>env clock persisted n submissions y. \<exists>err. y = Inl err", OF _ assms])
  fix monitor' :: "'a env \<Rightarrow> (nat \<Rightarrow> datetime) \<Rightarrow> queue \<Rightarrow> nat \<Rightarrow> queue \<Rightarrow> (error + unit) option"
    and env clock persisted n submissions y
  assume IH: "\<And>env clock persisted n submissions y.
                monitor' env clock persisted n submissions = Some y \<Longrightarrow> \<exists>err. y = Inl err"
    and step: "(case earlier_statuses env (clock n) submissions (map fst submissions) of
        Inl e \<Rightarrow> Some (Inl e)
      | Inr statuses \<Rightarrow>
          if table_rows statuses = [] then Some (Inl (KeyError ''run_status''))
          else if list_ex (\<lambda>row. row_run_status row \<in> set active_states) (table_rows statuses)
          then monitor' env clock persisted (Suc n) persisted
          else Some (Inr ())) = Some y"
  show "\<exists>err. y = Inl err"
  proof (cases "earlier_statuses env (clock n) submissions (map fst submissions)")
    case (Inl e)
    with step show ?thesis by auto
  next
    case (Inr statuses)
    show ?thesis
    proof (cases "table_rows statuses = []")
      case True
      with step Inr show ?thesis by auto
    next
      case False
      then obtain row where row: "row \<in> set (table_rows statuses)"
        by (cases "table_rows statuses") auto
      with table_rows_running [OF all_running_earlier_statuses [OF Inr]]
      have "row_run_status row \<in> set active_states"
        by (simp add: active_states_def)
      with row have "list_ex (\<lambda>row. row_run_status row \<in> set active_states) (table_rows statuses)"
        by (auto simp: list_ex_iff)
      with step Inr False have "monitor' env clock persisted (Suc n) persisted = Some y"
        by simp
      from IH [OF this] show ?thesis .
    qed
  qed
qed

end
